theory Spec2Isabelle
  imports Complex_Main
begin

section \<open>Values of the simulator\<close>

text \<open>
  The simulator \<open>sim_r\<close> and its helper \<open>upfun\<close> are MATLAB functions working on
  matrices of doubles. A double is modelled as a value of \<open>fl\<close>: \<open>Fin x\<close> is the finite
  value \<open>x\<close>, \<open>PInf\<close> and \<open>NInf\<close> are the two infinities and \<open>NaN\<close> is not-a-number.
  The source produces the special values structurally: \<open>nan(nseq,nsmp)\<close> initialises
  four matrices, \<open>mean\<close> of an empty row is NaN, \<open>(1-h)./h\<close> is \<open>Inf\<close> at \<open>h = 0\<close>, and
  \<open>exp\<close> in \<open>upfun\<close> overflows to \<open>Inf\<close> as soon as its argument exceeds about 709.78,
  a size that a log-belief can have. The overflow inside \<open>upfun\<close> is therefore part of the
  model (\<open>ovf\<close> below). Everything else is exact: rounding and underflow are not
  modelled, and the sums and products of finite values outside \<open>upfun\<close>, which would
  overflow only beyond \<open>1.8e308\<close>, are the real sums and products.
  A response or confidence label is a \<open>nat option\<close>, \<open>None\<close> being NaN.
\<close>

datatype fl = Fin real | PInf | NInf | NaN

type_synonym lbl = "nat option"

datatype error = BadSubscript | IndexExceeds | EmptyPopulation

definition bind_e :: "error + 'a \<Rightarrow> ('a \<Rightarrow> error + 'b) \<Rightarrow> error + 'b" where
  "bind_e m f = (case m of Inl e \<Rightarrow> Inl e | Inr x \<Rightarrow> f x)"

text \<open>
  \<open>v(i)\<close> and \<open>m(i,:)\<close> with MATLAB's indices from 1: index 0 and an index past the end
  raise.
\<close>

definition row :: "'a list \<Rightarrow> nat \<Rightarrow> error + 'a" where
  "row m i =
     (if i = 0 then Inl BadSubscript
      else if length m < i then Inl IndexExceeds
      else Inr (m ! (i - 1)))"

text \<open>
  \<open>m(i,:) = v\<close>. The loop only assigns rows \<open>1 \<le> i \<le> nseq\<close> of matrices that have
  \<open>nseq\<close> rows (lemma \<open>sim_upto_shape\<close> below), where this is the list update.
\<close>

definition setrow :: "'a list \<Rightarrow> nat \<Rightarrow> 'a \<Rightarrow> 'a list" where
  "setrow m i v = m[i - 1 := v]"

text \<open>
  Comparisons with a finite number \<open>t\<close>. With NaN, \<open><\<close>, \<open>>\<close> and \<open>==\<close> are false
  and \<open>~=\<close> is true.
\<close>

definition flt :: "fl \<Rightarrow> real \<Rightarrow> bool" where
  "flt a t = (case a of Fin x \<Rightarrow> x < t | PInf \<Rightarrow> False | NInf \<Rightarrow> True | NaN \<Rightarrow> False)"

definition fgt :: "fl \<Rightarrow> real \<Rightarrow> bool" where
  "fgt a t = (case a of Fin x \<Rightarrow> t < x | PInf \<Rightarrow> True | NInf \<Rightarrow> False | NaN \<Rightarrow> False)"

text \<open>
  Exact sum and product of a double with a finite number: \<open>Inf + r = Inf\<close>, the sign of
  \<open>Inf * r\<close> is that of \<open>r\<close>, and \<open>Inf * 0\<close> is NaN.
\<close>

definition fplus :: "fl \<Rightarrow> real \<Rightarrow> fl" where
  "fplus a r = (case a of Fin x \<Rightarrow> Fin (x + r) | PInf \<Rightarrow> PInf | NInf \<Rightarrow> NInf | NaN \<Rightarrow> NaN)"

definition ftimes :: "fl \<Rightarrow> real \<Rightarrow> fl" where
  "ftimes a r =
     (case a of
        Fin x \<Rightarrow> Fin (x * r)
      | PInf \<Rightarrow> (if 0 < r then PInf else if r < 0 then NInf else NaN)
      | NInf \<Rightarrow> (if 0 < r then NInf else if r < 0 then PInf else NaN)
      | NaN \<Rightarrow> NaN)"

definition eq_lbl :: "lbl \<Rightarrow> lbl \<Rightarrow> bool" where
  "eq_lbl a b = (case a of None \<Rightarrow> False | Some x \<Rightarrow> (case b of None \<Rightarrow> False | Some y \<Rightarrow> x = y))"

definition neq_lbl :: "lbl \<Rightarrow> lbl \<Rightarrow> bool" where
  "neq_lbl a b = (\<not> eq_lbl a b)"

section \<open>The hazard update and the noise\<close>

text \<open>
  The arithmetic of \<open>upfun\<close>. \<open>dbl_max\<close> is the largest double; a result beyond it is
  an infinity. Sums follow the rules of the infinities (\<open>Inf - Inf\<close> is NaN),
  \<open>exp(-Inf)\<close> is 0, \<open>log(0)\<close> is \<open>-Inf\<close> and \<open>log(Inf)\<close> is \<open>Inf\<close>. MATLAB's \<open>log\<close> of
  a negative number is complex; the model has no complex values and writes NaN there,
  which can only happen for \<open>h < 0\<close> or \<open>h > 1\<close>.
\<close>

definition dbl_max :: real where
  "dbl_max = (2 - 1 / 2 ^ 52) * 2 ^ 1023"

definition ovf :: "real \<Rightarrow> fl" where
  "ovf r = (if dbl_max < r then PInf else if r < - dbl_max then NInf else Fin r)"

definition fneg :: "fl \<Rightarrow> fl" where
  "fneg a = (case a of Fin x \<Rightarrow> Fin (- x) | PInf \<Rightarrow> NInf | NInf \<Rightarrow> PInf | NaN \<Rightarrow> NaN)"

definition fadd :: "fl \<Rightarrow> fl \<Rightarrow> fl" where
  "fadd a b =
     (case a of
        Fin x \<Rightarrow> (case b of Fin y \<Rightarrow> ovf (x + y) | PInf \<Rightarrow> PInf | NInf \<Rightarrow> NInf | NaN \<Rightarrow> NaN)
      | PInf \<Rightarrow> (case b of Fin y \<Rightarrow> PInf | PInf \<Rightarrow> PInf | NInf \<Rightarrow> NaN | NaN \<Rightarrow> NaN)
      | NInf \<Rightarrow> (case b of Fin y \<Rightarrow> NInf | PInf \<Rightarrow> NaN | NInf \<Rightarrow> NInf | NaN \<Rightarrow> NaN)
      | NaN \<Rightarrow> NaN)"

definition fsub :: "fl \<Rightarrow> fl \<Rightarrow> fl" where
  "fsub a b = fadd a (fneg b)"

definition fexp :: "fl \<Rightarrow> fl" where
  "fexp a = (case a of Fin x \<Rightarrow> ovf (exp x) | PInf \<Rightarrow> PInf | NInf \<Rightarrow> Fin 0 | NaN \<Rightarrow> NaN)"

definition flog :: "fl \<Rightarrow> fl" where
  "flog a =
     (case a of
        Fin x \<Rightarrow> (if 0 < x then Fin (ln x) else if x = 0 then NInf else NaN)
      | PInf \<Rightarrow> PInf
      | NInf \<Rightarrow> NaN
      | NaN \<Rightarrow> NaN)"

text \<open>\<open>(1-h)./h\<close>: \<open>+Inf\<close> at \<open>h = 0\<close>, and for an \<open>h\<close> so small that the quotient overflows.\<close>

definition odds :: "real \<Rightarrow> fl" where
  "odds h = (if h = 0 then PInf else ovf ((1 - h) / h))"

text \<open>
  \<^verbatim>\<open>x = x+log((1-h)./h+exp(-x))-log((1-h)./h+exp(+x));\<close>
  At \<open>h = 0\<close> both logarithms are \<open>+Inf\<close> and their difference is NaN, whatever \<open>x\<close>
  is (lemma \<open>upfun_zero_hazard\<close>). For \<open>0 < h < 1\<close> and a finite \<open>x\<close> the result is
  the real value of the expression as long as nothing overflows (lemma
  \<open>upfun_in_range\<close>); when \<open>exp(x)\<close> overflows the second logarithm is \<open>+Inf\<close> and the
  result is \<open>-Inf\<close>, when \<open>exp(-x)\<close> overflows the first one is and the result is
  \<open>+Inf\<close>.
\<close>

definition upfun :: "fl \<Rightarrow> real \<Rightarrow> fl" where
  "upfun x h =
     fsub (fadd x (flog (fadd (odds h) (fexp (fneg x)))))
          (flog (fadd (odds h) (fexp x)))"

text \<open>
  \<open>normrnd(mu,sigma)\<close> is \<open>randn .* sigma + mu\<close>, and NaN for a negative \<open>sigma\<close>. The
  standard normal draw \<open>z\<close> is an input of the model.
\<close>

definition normrnd :: "fl \<Rightarrow> real \<Rightarrow> real \<Rightarrow> fl" where
  "normrnd mu sigma z = (if sigma < 0 then NaN else fplus mu (z * sigma))"

definition normrnd_row :: "fl list \<Rightarrow> real \<Rightarrow> (nat \<Rightarrow> real) \<Rightarrow> fl list" where
  "normrnd_row mus sigma z = map (\<lambda>j. normrnd (mus ! j) sigma (z j)) [0..<length mus]"

section \<open>Decision and confidence read-out\<close>

text \<open>\<^verbatim>\<open>raft(iseq,:) = 1+(xr < 0);\<close>\<close>

definition respond :: "fl \<Rightarrow> lbl" where
  "respond xr = Some (1 + (if flt xr 0 then 1 else 0))"

text \<open>\<^verbatim>\<open>xc = xt(iseq,:).*(3-2*raft(iseq,:));\<close>\<close>

definition signed_belief :: "fl \<Rightarrow> lbl \<Rightarrow> fl" where
  "signed_belief x r =
     (case r of
        None \<Rightarrow> NaN
      | Some k \<Rightarrow> ftimes x (3 - 2 * real k))"

text \<open>\<^verbatim>\<open>iswi = raft(iseq,:) ~= rbef(iseq,:); xc(iswi) = xc(iswi)*gcnf;\<close>\<close>

definition switch_gain :: "fl \<Rightarrow> lbl \<Rightarrow> lbl \<Rightarrow> real \<Rightarrow> fl" where
  "switch_gain xc r rb g = (if neq_lbl r rb then ftimes xc g else xc)"

text \<open>\<^verbatim>\<open>caft(iseq,:) = 1+(xc > tcnf);\<close>\<close>

definition confide :: "fl \<Rightarrow> real \<Rightarrow> lbl" where
  "confide xc t = Some (1 + (if fgt xc t then 1 else 0))"

section \<open>Resampling primitives\<close>

text \<open>\<open>mean\<close> of a logical row; NaN for an empty row.\<close>

definition mean_l :: "bool list \<Rightarrow> fl" where
  "mean_l bs =
     (if bs = [] then NaN
      else Fin (real (length (filter (\<lambda>b. b) bs)) / real (length bs)))"

definition any_l :: "bool list \<Rightarrow> bool" where
  "any_l bs = list_ex (\<lambda>b. b) bs"

text \<open>\<open>find\<close>: the indices, from 1, of the true entries.\<close>

definition find_l :: "bool list \<Rightarrow> nat list" where
  "find_l bs = map Suc (filter (\<lambda>j. bs ! j) [0..<length bs])"

text \<open>
  \<open>randsample(population,k,true)\<close> draws \<open>k\<close> values with replacement; the \<open>i\<close>-th
  uniform draw is \<open>1 + pick i mod n\<close>, so that every index of \<open>1..n\<close> can be drawn and
  nothing else. MATLAB reads a first argument with a single element as the number \<open>n\<close>
  of \<open>randsample(n,k,true)\<close> and then samples from \<open>1..n\<close>, not from the one-element
  population (the help text of \<open>randsample\<close> warns about a numeric population that
  might have length 1). An empty population with \<open>k > 0\<close> raises.
\<close>

definition randsample :: "nat list \<Rightarrow> nat \<Rightarrow> (nat \<Rightarrow> nat) \<Rightarrow> error + nat list" where
  "randsample pop k pick =
     (let n = (if length pop = 1 then hd pop else length pop) in
      if k = 0 then Inr []
      else if n = 0 then Inl EmptyPopulation
      else
        let y = map (\<lambda>i. 1 + pick i mod n) [0..<k] in
        Inr (if length pop = 1 then y else map (\<lambda>i. pop ! (i - 1)) y))"

text \<open>\<open>x(idx)\<close> for a vector of indices.\<close>

definition gather :: "'a list \<Rightarrow> nat list \<Rightarrow> error + 'a list" where
  "gather x idx =
     (if list_ex (\<lambda>i. i = 0) idx then Inl BadSubscript
      else if list_ex (\<lambda>i. length x < i) idx then Inl IndexExceeds
      else Inr (map (\<lambda>i. x ! (i - 1)) idx))"

section \<open>Inputs and state of \<open>sim_r\<close>\<close>

text \<open>
  \<open>sim_r\<close> is a nested function: the trial data, the flags and the observed behaviour
  \<open>cfg\<close> are variables of the enclosing function, which is not part of the source, so
  they are gathered in a record of inputs. \<open>nsmp\<close> is the number of columns of every
  matrix, the size of the particle population.
\<close>

record env =
  nseq :: nat
  nsmp :: nat
  seqind :: "nat list"
  seqllr :: "real list"
  seqlen :: "nat list"
  fitcnf :: bool
  resamp :: bool
  cfg_rbef :: "lbl list"
  cfg_cbef :: "lbl list"
  cfg_raft :: "lbl list"
  cfg_caft :: "lbl list"

record par =
  h :: real
  sinf :: real
  ssel :: real
  scnf :: real
  tcnf :: real
  gcnf :: real

text \<open>
  The random draws, by trial and by particle: standard normal draws for the three calls of
  \<open>normrnd\<close> and the draws of \<open>randsample\<close>.
\<close>

record rng =
  zinf :: "nat \<Rightarrow> nat \<Rightarrow> real"
  zsel :: "nat \<Rightarrow> nat \<Rightarrow> real"
  zcnf :: "nat \<Rightarrow> nat \<Rightarrow> real"
  pick :: "nat \<Rightarrow> nat \<Rightarrow> nat"

record state =
  xt :: "fl list list"
  rbef :: "lbl list list"
  raft :: "lbl list list"
  cbef :: "lbl list list"
  caft :: "lbl list list"
  psmp :: "fl list"

definition init :: "env \<Rightarrow> state" where
  "init E =
     \<lparr> xt = replicate (nseq E) (replicate (nsmp E) (Fin 0)),
       rbef = replicate (nseq E) (replicate (nsmp E) None),
       raft = replicate (nseq E) (replicate (nsmp E) None),
       cbef = replicate (nseq E) (replicate (nsmp E) None),
       caft = replicate (nseq E) (replicate (nsmp E) None),
       psmp = replicate (nseq E) (Fin 1) \<rparr>"

section \<open>One pass of the loop body\<close>

text \<open>Lines 86 to 107: the state before the sequence.\<close>

definition set_before :: "env \<Rightarrow> nat \<Rightarrow> nat \<Rightarrow> state \<Rightarrow> error + state" where
  "set_before E iseq si s =
     (if 1 < si then
        bind_e (row (raft s) (iseq - 1)) (\<lambda>r.
          let s1 = s\<lparr>rbef := setrow (rbef s) iseq r\<rparr> in
          if fitcnf E then
            bind_e (row (caft s1) (iseq - 1)) (\<lambda>c.
              Inr (s1\<lparr>cbef := setrow (cbef s1) iseq c\<rparr>))
          else Inr s1)
      else
        bind_e (row (cfg_rbef E) iseq) (\<lambda>r.
          let s1 = s\<lparr>rbef := setrow (rbef s) iseq (replicate (nsmp E) r)\<rparr> in
          if fitcnf E then
            bind_e (row (cfg_cbef E) iseq) (\<lambda>c.
              Inr (s1\<lparr>cbef := setrow (cbef s1) iseq (replicate (nsmp E) c)\<rparr>))
          else Inr s1))"

text \<open>Lines 111 to 113: the hazard correction, skipped on the first trial of a block.\<close>

definition hazard_step :: "par \<Rightarrow> nat \<Rightarrow> nat \<Rightarrow> state \<Rightarrow> error + state" where
  "hazard_step P iseq si s =
     (if 1 < si then
        bind_e (row (xt s) (iseq - 1)) (\<lambda>x.
          Inr (s\<lparr>xt := setrow (xt s) iseq (map (\<lambda>v. upfun v (h P)) x)\<rparr>))
      else Inr s)"

text \<open>Line 115: the evidence and the inference noise.\<close>

definition accumulate :: "env \<Rightarrow> par \<Rightarrow> rng \<Rightarrow> nat \<Rightarrow> state \<Rightarrow> error + state" where
  "accumulate E P R iseq s =
     bind_e (row (xt s) iseq) (\<lambda>x.
     bind_e (row (seqllr E) iseq) (\<lambda>llr.
     bind_e (row (seqlen E) iseq) (\<lambda>len.
       Inr (s\<lparr>xt := setrow (xt s) iseq
              (normrnd_row (map (\<lambda>v. fplus v llr) x)
                 (sqrt (real len) * sinf P) (zinf R iseq))\<rparr>))))"

text \<open>Lines 119 to 123: the selection noise and the response.\<close>

definition decision_var :: "par \<Rightarrow> rng \<Rightarrow> nat \<Rightarrow> fl list \<Rightarrow> fl list" where
  "decision_var P R iseq x = normrnd_row x (ssel P) (zsel R iseq)"

definition respond_step :: "par \<Rightarrow> rng \<Rightarrow> nat \<Rightarrow> state \<Rightarrow> error + state" where
  "respond_step P R iseq s =
     bind_e (row (xt s) iseq) (\<lambda>x.
       Inr (s\<lparr>raft := setrow (raft s) iseq (map respond (decision_var P R iseq x))\<rparr>))"

text \<open>Lines 129 to 139: the confidence.\<close>

definition confidence_var :: "par \<Rightarrow> rng \<Rightarrow> nat \<Rightarrow> fl list \<Rightarrow> lbl list \<Rightarrow> lbl list \<Rightarrow> fl list" where
  "confidence_var P R iseq x r rb =
     normrnd_row
       (map (\<lambda>j. switch_gain (signed_belief (x ! j) (r ! j)) (r ! j) (rb ! j) (gcnf P))
          [0..<length x])
       (scnf P) (zcnf R iseq)"

definition confidence_step :: "par \<Rightarrow> rng \<Rightarrow> nat \<Rightarrow> state \<Rightarrow> error + state" where
  "confidence_step P R iseq s =
     bind_e (row (xt s) iseq) (\<lambda>x.
     bind_e (row (raft s) iseq) (\<lambda>r.
     bind_e (row (rbef s) iseq) (\<lambda>rb.
       Inr (s\<lparr>caft := setrow (caft s) iseq
              (map (\<lambda>xc. confide xc (tcnf P)) (confidence_var P R iseq x r rb))\<rparr>))))"

text \<open>Lines 142 to 144 and line 159: the particles that reproduce the observed behaviour.\<close>

definition match_rsp :: "env \<Rightarrow> nat \<Rightarrow> state \<Rightarrow> error + bool list" where
  "match_rsp E iseq s =
     bind_e (row (raft s) iseq) (\<lambda>r.
     bind_e (row (cfg_raft E) iseq) (\<lambda>ro.
       Inr (map (\<lambda>a. eq_lbl a ro) r)))"

definition match_cnf :: "env \<Rightarrow> nat \<Rightarrow> state \<Rightarrow> error + bool list" where
  "match_cnf E iseq s =
     bind_e (row (raft s) iseq) (\<lambda>r.
     bind_e (row (cfg_raft E) iseq) (\<lambda>ro.
     bind_e (row (caft s) iseq) (\<lambda>c.
     bind_e (row (cfg_caft E) iseq) (\<lambda>co.
       Inr (map (\<lambda>j. eq_lbl (r ! j) ro \<and> eq_lbl (c ! j) co) [0..<length r])))))"

text \<open>Lines 145 to 152 and 160 to 167: the survival weight and the resampling.\<close>

definition resample :: "env \<Rightarrow> rng \<Rightarrow> nat \<Rightarrow> bool list \<Rightarrow> state \<Rightarrow> error + state" where
  "resample E R iseq ires s =
     (let s1 = s\<lparr>psmp := setrow (psmp s) iseq (mean_l ires)\<rparr> in
      bind_e (row (xt s1) iseq) (\<lambda>x.
        if any_l ires then
          bind_e (randsample (find_l ires) (nsmp E) (pick R iseq)) (\<lambda>idx.
          bind_e (gather x idx) (\<lambda>x'.
            Inr (s1\<lparr>xt := setrow (xt s1) iseq x'\<rparr>)))
        else Inr (s1\<lparr>xt := setrow (xt s1) iseq (replicate (length x) (Fin 0))\<rparr>)))"

definition trial :: "env \<Rightarrow> par \<Rightarrow> rng \<Rightarrow> nat \<Rightarrow> state \<Rightarrow> error + state" where
  "trial E P R iseq s =
     bind_e (row (seqind E) iseq) (\<lambda>si.
     bind_e (set_before E iseq si s) (\<lambda>s1.
     bind_e (hazard_step P iseq si s1) (\<lambda>s2.
     bind_e (accumulate E P R iseq s2) (\<lambda>s3.
     bind_e (respond_step P R iseq s3) (\<lambda>s4.
       if fitcnf E then
         bind_e (confidence_step P R iseq s4) (\<lambda>s5.
           if resamp E then
             bind_e (match_cnf E iseq s5) (\<lambda>ires. resample E R iseq ires s5)
           else Inr s5)
       else
         if resamp E then
           bind_e (match_rsp E iseq s4) (\<lambda>ires. resample E R iseq ires s4)
         else Inr s4)))))"

section \<open>The loop\<close>

text \<open>
  \<^verbatim>\<open>for iseq = 1:nseq\<close>: \<open>sim_upto E P R k\<close> is the state after the first \<open>k\<close> passes,
  or the error that stopped the loop.
\<close>

primrec sim_upto :: "env \<Rightarrow> par \<Rightarrow> rng \<Rightarrow> nat \<Rightarrow> error + state" where
  "sim_upto E P R 0 = Inr (init E)"
| "sim_upto E P R (Suc k) = bind_e (sim_upto E P R k) (trial E P R (Suc k))"

definition sim_r :: "env \<Rightarrow> par \<Rightarrow> rng \<Rightarrow> error + state" where
  "sim_r E P R = sim_upto E P R (nseq E)"

section \<open>The two halves of the body, and predicates on states\<close>

text \<open>
  Lines 86 to 139 of the body are the forward simulation of the trial; lines 141 to 168 are
  the conditioning on the observed behaviour, written once in each branch of
  \<open>if fitcnf\<close>. The two definitions below name these two halves of \<open>trial\<close>
  (lemma \<open>trial_forward\<close>), so that the state before resampling can be spoken about.
\<close>

definition forward :: "env \<Rightarrow> par \<Rightarrow> rng \<Rightarrow> nat \<Rightarrow> state \<Rightarrow> error + state" where
  "forward E P R iseq s =
     bind_e (row (seqind E) iseq) (\<lambda>si.
     bind_e (set_before E iseq si s) (\<lambda>s1.
     bind_e (hazard_step P iseq si s1) (\<lambda>s2.
     bind_e (accumulate E P R iseq s2) (\<lambda>s3.
     bind_e (respond_step P R iseq s3) (\<lambda>s4.
       if fitcnf E then confidence_step P R iseq s4 else Inr s4)))))"

definition survivors :: "env \<Rightarrow> nat \<Rightarrow> state \<Rightarrow> error + bool list" where
  "survivors E iseq s = (if fitcnf E then match_cnf E iseq s else match_rsp E iseq s)"

definition condition :: "env \<Rightarrow> rng \<Rightarrow> nat \<Rightarrow> state \<Rightarrow> error + state" where
  "condition E R iseq s =
     (if resamp E then bind_e (survivors E iseq s) (\<lambda>ires. resample E R iseq ires s)
      else Inr s)"

text \<open>Every matrix of the state has \<open>nseq\<close> rows of \<open>nsmp\<close> columns.\<close>

definition shape :: "env \<Rightarrow> state \<Rightarrow> bool" where
  "shape E s \<longleftrightarrow>
     length (xt s) = nseq E \<and> length (rbef s) = nseq E \<and> length (raft s) = nseq E \<and>
     length (cbef s) = nseq E \<and> length (caft s) = nseq E \<and> length (psmp s) = nseq E \<and>
     list_all (\<lambda>r. length r = nsmp E) (xt s) \<and>
     list_all (\<lambda>r. length r = nsmp E) (rbef s) \<and>
     list_all (\<lambda>r. length r = nsmp E) (raft s) \<and>
     list_all (\<lambda>r. length r = nsmp E) (cbef s) \<and>
     list_all (\<lambda>r. length r = nsmp E) (caft s)"

text \<open>
  Inputs on which no subscript of the loop is out of range: the trial vectors and the
  observed behaviour have an entry for each of the \<open>nseq\<close> trials, and the first trial
  starts a block (so that row \<open>iseq-1 = 0\<close> is never read).
\<close>

definition wf_env :: "env \<Rightarrow> bool" where
  "wf_env E \<longleftrightarrow>
     nseq E \<le> length (seqind E) \<and> nseq E \<le> length (seqllr E) \<and>
     nseq E \<le> length (seqlen E) \<and> nseq E \<le> length (cfg_rbef E) \<and>
     nseq E \<le> length (cfg_cbef E) \<and> nseq E \<le> length (cfg_raft E) \<and>
     nseq E \<le> length (cfg_caft E) \<and>
     (seqind E = [] \<or> hd (seqind E) \<le> 1)"

text \<open>Row \<open>i + 1\<close> of the six outputs.\<close>

definition rows_at :: "state \<Rightarrow> nat \<Rightarrow> fl list \<times> lbl list \<times> lbl list \<times> lbl list \<times> lbl list \<times> fl" where
  "rows_at s i = (xt s ! i, rbef s ! i, raft s ! i, cbef s ! i, caft s ! i, psmp s ! i)"

text \<open>
  Particle \<open>j + 1\<close> reproduces the observed behaviour of trial \<open>k + 1\<close>: the entry of
  \<open>ires\<close> (lines 142 to 144 when confidence is fitted, line 159 otherwise), read off a
  state.
\<close>

definition matches :: "env \<Rightarrow> state \<Rightarrow> nat \<Rightarrow> nat \<Rightarrow> bool" where
  "matches E s k j \<longleftrightarrow>
     eq_lbl (raft s ! k ! j) (cfg_raft E ! k) \<and>
     (fitcnf E \<longrightarrow> eq_lbl (caft s ! k ! j) (cfg_caft E ! k))"

text \<open>All entries of a row are the same value.\<close>

definition const_row :: "'a list \<Rightarrow> bool" where
  "const_row x \<longleftrightarrow> (\<exists>c. x = replicate (length x) c)"

section \<open>The sign-based classifier of the specification\<close>

text \<open>
  The specification compares the noise-free simulator with "a pure sign-based classifier
  on accumulated evidence": response 1 when the accumulated log-likelihood ratio is
  non-negative, response 2 when it is negative. These two definitions follow those words,
  not the source; the evidence is accumulated from the first trial of the current block.
\<close>

definition spec_sign_classifier :: "real \<Rightarrow> nat" where
  "spec_sign_classifier a = (if a < 0 then 2 else 1)"

fun spec_accumulated_llr :: "env \<Rightarrow> nat \<Rightarrow> real" where
  "spec_accumulated_llr E 0 = seqllr E ! 0"
| "spec_accumulated_llr E (Suc k) =
     (if 1 < seqind E ! Suc k then spec_accumulated_llr E k else 0) + seqllr E ! Suc k"

section \<open>Concrete runs\<close>

text \<open>
  A run of two trials in one block with two particles, fitting confidence and conditioning
  on the observed behaviour. On trial 1 both particles answer 1 while the subject answered 2;
  on trial 2 the particles answer 1 and 2 and only the first reproduces the subject.
\<close>

definition EA :: env where
  "EA = \<lparr> nseq = 2, nsmp = 2, seqind = [1, 2], seqllr = [0, 1], seqlen = [1, 1],
     fitcnf = True, resamp = True, cfg_rbef = [Some 1, Some 1], cfg_cbef = [Some 1, Some 1],
     cfg_raft = [Some 2, Some 1], cfg_caft = [Some 1, Some 2] \<rparr>"

definition PA :: par where
  "PA = \<lparr> h = 1 / 2, sinf = 1, ssel = 1, scnf = 0, tcnf = 0, gcnf = 2 \<rparr>"

definition RA :: rng where
  "RA = \<lparr> zinf = (\<lambda>i j. if i = 1 then 1 else if j = 0 then 0 else - 3),
           zsel = (\<lambda>i j. 0), zcnf = (\<lambda>i j. 0), pick = (\<lambda>i j. 0) \<rparr>"

definition SA2 :: state where
  "SA2 = \<lparr> xt = [[Fin 0, Fin 0], [Fin 1, Fin 1]],
            rbef = [[Some 1, Some 1], [Some 1, Some 1]],
            raft = [[Some 1, Some 1], [Some 1, Some 2]],
            cbef = [[Some 1, Some 1], [Some 2, Some 2]],
            caft = [[Some 2, Some 2], [Some 2, Some 2]],
            psmp = [Fin 0, Fin (1 / 2)] \<rparr>"

text \<open>The run above after its first trial, and after the forward part of its second.\<close>

definition SA1 :: state where
  "SA1 = \<lparr> xt = [[Fin 0, Fin 0], [Fin 0, Fin 0]],
            rbef = [[Some 1, Some 1], [None, None]],
            raft = [[Some 1, Some 1], [None, None]],
            cbef = [[Some 1, Some 1], [None, None]],
            caft = [[Some 2, Some 2], [None, None]],
            psmp = [Fin 0, Fin 1] \<rparr>"


text \<open>The parameters of the first run with the hazard rate 1/4.\<close>

definition P1 :: par where
  "P1 = PA\<lparr>h := 1 / 4\<rparr>"





text \<open>
  One trial, two particles, conditioning on the response only. The inference noise puts the
  particles at beliefs 1 and -1; the subject answered 2, so only the second particle
  survives.
\<close>

definition E4 :: env where
  "E4 = \<lparr> nseq = 1, nsmp = 2, seqind = [1], seqllr = [0], seqlen = [1],
     fitcnf = False, resamp = True, cfg_rbef = [Some 1], cfg_cbef = [Some 1],
     cfg_raft = [Some 2], cfg_caft = [Some 1] \<rparr>"

definition P4 :: par where
  "P4 = \<lparr> h = 1 / 2, sinf = 1, ssel = 0, scnf = 0, tcnf = 0, gcnf = 1 \<rparr>"

definition R4 :: rng where
  "R4 = \<lparr> zinf = (\<lambda>i j. if j = 0 then 1 else - 1),
           zsel = (\<lambda>i j. 0), zcnf = (\<lambda>i j. 0), pick = (\<lambda>i j. 0) \<rparr>"

definition SM4 :: state where
  "SM4 = \<lparr> xt = [[Fin 1, Fin (- 1)]],
            rbef = [[Some 1, Some 1]],
            raft = [[Some 1, Some 2]],
            cbef = [[None, None]],
            caft = [[None, None]],
            psmp = [Fin 1] \<rparr>"

definition S4 :: state where
  "S4 = SM4\<lparr> xt := [[Fin 1, Fin 1]], psmp := [Fin (1 / 2)] \<rparr>"

text \<open>
  Two trials of one block with evidence -1 each, no noise and hazard rate 0, simulated
  forward without conditioning.
\<close>

definition E9 :: env where
  "E9 = \<lparr> nseq = 2, nsmp = 2, seqind = [1, 2], seqllr = [- 1, - 1], seqlen = [2, 2],
     fitcnf = False, resamp = False, cfg_rbef = [Some 1, Some 1], cfg_cbef = [Some 1, Some 1],
     cfg_raft = [Some 1, Some 1], cfg_caft = [Some 1, Some 1] \<rparr>"

definition P9 :: par where
  "P9 = \<lparr> h = 0, sinf = 0, ssel = 0, scnf = 0, tcnf = 0, gcnf = 1 \<rparr>"

definition R9 :: rng where
  "R9 = \<lparr> zinf = (\<lambda>i j. 0), zsel = (\<lambda>i j. 0), zcnf = (\<lambda>i j. 0), pick = (\<lambda>i j. 0) \<rparr>"

definition S9 :: state where
  "S9 = \<lparr> xt = [[Fin (- 1), Fin (- 1)], [NaN, NaN]],
           rbef = [[Some 1, Some 1], [Some 2, Some 2]],
           raft = [[Some 2, Some 2], [Some 1, Some 1]],
           cbef = [[None, None], [None, None]],
           caft = [[None, None], [None, None]],
           psmp = [Fin 1, Fin 1] \<rparr>"

section \<open>Basic facts\<close>

lemma bind_e_Inl [simp]: "bind_e (Inl e) f = Inl e"
  by (simp add: bind_e_def)

lemma bind_e_Inr [simp]: "bind_e (Inr x) f = f x"
  by (simp add: bind_e_def)

lemma bind_e_eq_Inr: "bind_e m f = Inr y \<longleftrightarrow> (\<exists>x. m = Inr x \<and> f x = Inr y)"
  by (cases m) simp_all

lemma row_eq_Inr: "row m i = Inr x \<longleftrightarrow> 0 < i \<and> i \<le> length m \<and> x = m ! (i - 1)"
  by (auto simp: row_def)

lemma row_Suc: "k < length m \<Longrightarrow> row m (Suc k) = Inr (m ! k)"
  by (simp add: row_def)

lemma setrow_Suc [simp]: "setrow m (Suc k) v = m[k := v]"
  by (simp add: setrow_def)

text \<open>Facts on the double range and on \<open>upfun\<close>.\<close>

lemma dbl_max_bounds: "2 ^ 1023 \<le> dbl_max" "dbl_max < 2 ^ 1024"
  by (simp_all add: dbl_max_def)

lemma dbl_max_ge: "3072 \<le> dbl_max"
proof -
  have "(3072::real) \<le> 2 ^ 1023" by simp
  with dbl_max_bounds(1) show ?thesis by linarith
qed

lemma ovf_Fin: "- dbl_max \<le> r \<Longrightarrow> r \<le> dbl_max \<Longrightarrow> ovf r = Fin r"
  by (simp add: ovf_def)

lemma ovf_PInf: "dbl_max < r \<Longrightarrow> ovf r = PInf"
  by (simp add: ovf_def)

lemma ln_dbl_max: "ln dbl_max \<le> 1024"
proof -
  have p: "0 < dbl_max" using dbl_max_ge by linarith
  have "ln dbl_max \<le> ln (2 ^ 1024)"
    using p dbl_max_bounds(2) by (simp del: ln_powr)
  also have "\<dots> = 1024 * ln 2" by (subst ln_realpow) simp_all
  also have "\<dots> \<le> 1024" using ln_2_less_1 by simp
  finally show ?thesis .
qed


lemma upfun_args_pos:
  assumes "0 < hz" "hz \<le> 1"
  shows "0 < (1 - hz) / hz + exp (v::real)"
proof -
  have "0 \<le> (1 - hz) / hz" using assms divide_nonneg_pos [of "1 - hz" hz] by simp
  moreover have "0 < exp v" by simp
  ultimately show ?thesis by linarith
qed

text \<open>
  Nothing overflows in \<open>upfun\<close> when \<open>(1-h)/h + exp \<bar>x\<bar>\<close> is a double; the result is
  then the real value of the expression.
\<close>

lemma upfun_in_range:
  assumes hp: "0 < hz" and h1: "hz < 1" and r: "(1 - hz) / hz + exp \<bar>x\<bar> \<le> dbl_max"
  shows "upfun (Fin x) hz =
           Fin (x + ln ((1 - hz) / hz + exp (- x)) - ln ((1 - hz) / hz + exp x))"
proof -
  let ?c = "(1 - hz) / hz"
  let ?M = "dbl_max"
  let ?A = "ln (?c + exp (- x))"
  let ?B = "ln (?c + exp x)"
  have M: "0 < ?M" "3072 \<le> ?M" using dbl_max_ge by linarith+
  have c0: "0 < ?c" using hp h1 by simp
  have e: "exp (- x) \<le> exp \<bar>x\<bar>" "exp x \<le> exp \<bar>x\<bar>" by simp_all
  have ep: "0 < exp (- x)" "0 < exp x" "0 < exp \<bar>x\<bar>" by simp_all
  have bc: "- ?M \<le> ?c" "?c \<le> ?M" using r ep(3) c0 M(1) by linarith+
  have b1: "- ?M \<le> exp (- x)" "exp (- x) \<le> ?M" using r e(1) ep(1) c0 M(1) by linarith+
  have b2: "- ?M \<le> exp x" "exp x \<le> ?M" using r e(2) ep(2) c0 M(1) by linarith+
  have b3: "- ?M \<le> ?c + exp (- x)" "?c + exp (- x) \<le> ?M"
    using r e(1) ep(1) c0 M(1) by linarith+
  have b4: "- ?M \<le> ?c + exp x" "?c + exp x \<le> ?M"
    using r e(2) ep(2) c0 M(1) by linarith+
  have p3: "0 < ?c + exp (- x)" and p4: "0 < ?c + exp x"
    using c0 ep(1,2) by linarith+
  have hz: "hz \<noteq> 0" using hp by simp
  have odds: "odds hz = Fin ?c"
    unfolding odds_def using hz ovf_Fin [OF bc] by simp
  have e1: "fexp (fneg (Fin x)) = Fin (exp (- x))"
    by (simp add: fexp_def fneg_def ovf_Fin [OF b1])
  have e2: "fexp (Fin x) = Fin (exp x)"
    by (simp add: fexp_def ovf_Fin [OF b2])
  have s1: "fadd (odds hz) (fexp (fneg (Fin x))) = Fin (?c + exp (- x))"
    unfolding odds e1 by (simp add: fadd_def ovf_Fin [OF b3])
  have s2: "fadd (odds hz) (fexp (Fin x)) = Fin (?c + exp x)"
    unfolding odds e2 by (simp add: fadd_def ovf_Fin [OF b4])
  have l1: "flog (Fin (?c + exp (- x))) = Fin ?A"
    using p3 by (simp add: flog_def)
  have l2: "flog (Fin (?c + exp x)) = Fin ?B"
    using p4 by (simp add: flog_def)
  have xb: "\<bar>x\<bar> \<le> 1024"
  proof -
    have "exp \<bar>x\<bar> \<le> ?M" using r c0 by linarith
    then have "ln (exp \<bar>x\<bar>) \<le> ln ?M" using M(1) ep(3) by (subst ln_le_cancel_iff)
    then have "\<bar>x\<bar> \<le> ln ?M" by simp
    with ln_dbl_max show ?thesis by linarith
  qed
  have Aub: "?A \<le> 1024"
  proof -
    have "?A \<le> ln ?M" using b3(2) p3 M(1) by (subst ln_le_cancel_iff)
    with ln_dbl_max show ?thesis by linarith
  qed
  have Bub: "?B \<le> 1024"
  proof -
    have "?B \<le> ln ?M" using b4(2) p4 M(1) by (subst ln_le_cancel_iff)
    with ln_dbl_max show ?thesis by linarith
  qed
  have Alb: "- x \<le> ?A"
  proof -
    have "exp (- x) \<le> ?c + exp (- x)" using c0 by linarith
    then have "ln (exp (- x)) \<le> ?A" using ep(1) p3 by (subst ln_le_cancel_iff)
    then show ?thesis by simp
  qed
  have Blb: "x \<le> ?B"
  proof -
    have "exp x \<le> ?c + exp x" using c0 by linarith
    then have "ln (exp x) \<le> ?B" using ep(2) p4 by (subst ln_le_cancel_iff)
    then show ?thesis by simp
  qed
  have bt: "- ?M \<le> x + ?A" "x + ?A \<le> ?M" using xb Aub Alb M(2) by linarith+
  have bu: "- ?M \<le> x + ?A + - ?B" "x + ?A + - ?B \<le> ?M"
    using xb Aub Alb Bub Blb M(2) by linarith+
  have t: "fadd (Fin x) (Fin ?A) = Fin (x + ?A)"
    by (simp add: fadd_def ovf_Fin [OF bt])
  have u: "fsub (Fin (x + ?A)) (Fin ?B) = Fin (x + ?A - ?B)"
    using ovf_Fin [OF bu] by (simp add: fsub_def fneg_def fadd_def)
  show ?thesis
    unfolding upfun_def s1 s2 l1 l2 t u ..
qed

lemma upfun_zero_hazard: "upfun x 0 = NaN"
  by (cases x)
    (simp_all add: upfun_def odds_def fsub_def fadd_def fneg_def fexp_def flog_def ovf_def
      split: fl.splits)

lemma upfun_zero_belief:
  assumes "0 < hz" and "hz < 1" and "(1 - hz) / hz + 1 \<le> dbl_max"
  shows "upfun (Fin 0) hz = Fin 0"
  using upfun_in_range [OF assms(1,2), of 0] assms(3) by simp

lemma upfun_zero_half: "upfun (Fin 0) (1 / 2) = Fin 0"
  using dbl_max_ge by (intro upfun_zero_belief) simp_all

text \<open>
  When \<open>exp(x)\<close> overflows and the quotient does not, the second logarithm is \<open>+Inf\<close>
  and the result is \<open>-Inf\<close>.
\<close>

lemma upfun_overflow:
  assumes hp: "0 < hz" and h1: "hz < 1" and c: "(1 - hz) / hz + 1 \<le> dbl_max"
    and x: "dbl_max < exp x" and x2: "x \<le> 2048"
  shows "upfun (Fin x) hz = NInf"
proof -
  let ?c = "(1 - hz) / hz"
  let ?M = "dbl_max"
  let ?A = "ln (?c + exp (- x))"
  have M: "0 < ?M" "3072 \<le> ?M" using dbl_max_ge by linarith+
  have c0: "0 < ?c" using hp h1 by simp
  have hz: "hz \<noteq> 0" using hp by simp
  have xp: "0 < x"
  proof (rule ccontr)
    assume "\<not> 0 < x"
    then have "exp x \<le> 1" by simp
    with x M show False by linarith
  qed
  have ep: "0 < exp (- x)" by simp
  have e1: "exp (- x) \<le> 1" using xp by simp
  have bc: "- ?M \<le> ?c" "?c \<le> ?M" using c c0 M(1) by linarith+
  have b1: "- ?M \<le> exp (- x)" "exp (- x) \<le> ?M" using e1 ep M by linarith+
  have b3: "- ?M \<le> ?c + exp (- x)" "?c + exp (- x) \<le> ?M" using c c0 e1 ep M by linarith+
  have p3: "0 < ?c + exp (- x)" using c0 ep by linarith
  have odds: "odds hz = Fin ?c"
    unfolding odds_def using hz ovf_Fin [OF bc] by simp
  have f1: "fexp (fneg (Fin x)) = Fin (exp (- x))"
    by (simp add: fexp_def fneg_def ovf_Fin [OF b1])
  have f2: "fexp (Fin x) = PInf"
    by (simp add: fexp_def ovf_PInf [OF x])
  have s1: "fadd (odds hz) (fexp (fneg (Fin x))) = Fin (?c + exp (- x))"
    unfolding odds f1 by (simp add: fadd_def ovf_Fin [OF b3])
  have s2: "fadd (odds hz) (fexp (Fin x)) = PInf"
    unfolding odds f2 by (simp add: fadd_def)
  have l1: "flog (Fin (?c + exp (- x))) = Fin ?A"
    using p3 by (simp add: flog_def)
  have Aub: "?A \<le> 1024"
  proof -
    have "?A \<le> ln ?M" using b3(2) p3 M(1) by (subst ln_le_cancel_iff)
    with ln_dbl_max show ?thesis by linarith
  qed
  have Alb: "- x \<le> ?A"
  proof -
    have "exp (- x) \<le> ?c + exp (- x)" using c0 by linarith
    then have "ln (exp (- x)) \<le> ?A" using ep p3 by (subst ln_le_cancel_iff)
    then show ?thesis by simp
  qed
  have bt: "- ?M \<le> x + ?A" "x + ?A \<le> ?M" using x2 xp Aub Alb M(2) by linarith+
  have t: "fadd (Fin x) (Fin ?A) = Fin (x + ?A)"
    by (simp add: fadd_def ovf_Fin [OF bt])
  show ?thesis
    unfolding upfun_def s1 s2 l1 t by (simp add: flog_def fsub_def fneg_def fadd_def)
qed

text \<open>
  When \<open>exp(-x)\<close> overflows and the quotient does not, the first logarithm is \<open>+Inf\<close>
  and the result is \<open>+Inf\<close>.
\<close>

lemma upfun_overflow_neg:
  assumes hp: "0 < hz" and h1: "hz < 1" and c: "(1 - hz) / hz + 1 \<le> dbl_max"
    and x: "dbl_max < exp (- x)"
  shows "upfun (Fin x) hz = PInf"
proof -
  let ?c = "(1 - hz) / hz"
  let ?M = "dbl_max"
  have M: "0 < ?M" "3072 \<le> ?M" using dbl_max_ge by linarith+
  have c0: "0 < ?c" using hp h1 by simp
  have hz: "hz \<noteq> 0" using hp by simp
  have xn: "x < 0"
  proof (rule ccontr)
    assume "\<not> x < 0"
    then have "exp (- x) \<le> 1" by simp
    with x M show False by linarith
  qed
  have ep: "0 < exp x" by simp
  have e1: "exp x \<le> 1" using xn by simp
  have bc: "- ?M \<le> ?c" "?c \<le> ?M" using c c0 M(1) by linarith+
  have b1: "- ?M \<le> exp x" "exp x \<le> ?M" using e1 ep M by linarith+
  have b3: "- ?M \<le> ?c + exp x" "?c + exp x \<le> ?M" using c c0 e1 ep M by linarith+
  have p3: "0 < ?c + exp x" using c0 ep by linarith
  have odds: "odds hz = Fin ?c"
    unfolding odds_def using hz ovf_Fin [OF bc] by simp
  have f1: "fexp (fneg (Fin x)) = PInf"
    by (simp add: fexp_def fneg_def ovf_PInf [OF x])
  have f2: "fexp (Fin x) = Fin (exp x)"
    by (simp add: fexp_def ovf_Fin [OF b1])
  have s1: "fadd (odds hz) (fexp (fneg (Fin x))) = PInf"
    unfolding odds f1 by (simp add: fadd_def)
  have s2: "fadd (odds hz) (fexp (Fin x)) = Fin (?c + exp x)"
    unfolding odds f2 by (simp add: fadd_def ovf_Fin [OF b3])
  have l2: "flog (Fin (?c + exp x)) = Fin (ln (?c + exp x))"
    using p3 by (simp add: flog_def)
  show ?thesis
    unfolding upfun_def s1 s2 l2 by (simp add: flog_def fsub_def fneg_def fadd_def)
qed

text \<open>
  When the quotient \<open>(1-h)./h\<close> itself overflows, both logarithms are \<open>+Inf\<close> and the
  result is NaN, as at \<open>h = 0\<close>.
\<close>

lemma upfun_tiny_hazard:
  assumes "0 < hz" and "dbl_max < (1 - hz) / hz"
  shows "upfun x hz = NaN"
proof -
  have "odds hz = PInf" using assms by (simp add: odds_def ovf_PInf)
  then show ?thesis
    by (cases x)
      (simp_all add: upfun_def fsub_def fadd_def fneg_def fexp_def flog_def ovf_def
        split: fl.splits)
qed

lemma exp_double_lower:
  assumes "a \<le> exp (z::real)" and "0 \<le> a" and "b \<le> a * a"
  shows "b \<le> exp (2 * z)"
proof -
  have "a * a \<le> exp z * exp z"
    by (rule mult_mono) (use assms(1,2) in simp_all)
  moreover have "exp (2 * z) = exp z * exp z" by (simp add: exp_double power2_eq_square)
  ultimately show ?thesis using assms(3) by linarith
qed

lemma exp_355_512: "2 < exp (355 / 512 :: real)"
proof -
  have "1 + (355 / 32768) + (355 / 32768)\<^sup>2 / 2 \<le> exp (355 / 32768 :: real)"
    by (rule exp_lower_Taylor_quadratic) simp
  then have s0: "10108924251 / 10000000000 \<le> exp (355 / 32768 :: real)"
    by (simp add: power2_eq_square)
  have s1: "10219034951 / 10000000000 \<le> exp (355 / 16384 :: real)"
    using exp_double_lower [OF s0, of "10219034951 / 10000000000"] by simp
  have s2: "2610716883 / 2500000000 \<le> exp (355 / 8192 :: real)"
    using exp_double_lower [OF s1, of "2610716883 / 2500000000"] by simp
  have s3: "10905348229 / 10000000000 \<le> exp (355 / 4096 :: real)"
    using exp_double_lower [OF s2, of "10905348229 / 10000000000"] by simp
  have s4: "11892661999 / 10000000000 \<le> exp (355 / 2048 :: real)"
    using exp_double_lower [OF s3, of "11892661999 / 10000000000"] by simp
  have s5: "7071770471 / 5000000000 \<le> exp (355 / 1024 :: real)"
    using exp_double_lower [OF s4, of "7071770471 / 5000000000"] by simp
  have s6: "20003975037 / 10000000000 \<le> exp (355 / 512 :: real)"
    using exp_double_lower [OF s5, of "20003975037 / 10000000000"] by simp
  then show ?thesis by simp
qed

lemma exp_710_overflows: "dbl_max < exp (710::real)"
proof -
  have "(2::real) ^ 1024 < exp (355 / 512) ^ 1024"
    using exp_355_512 by (intro power_strict_mono) simp_all
  also have "\<dots> = exp (of_nat 1024 * (355 / 512))" by (rule exp_of_nat_mult [symmetric])
  also have "\<dots> = exp 710" by simp
  finally show ?thesis using dbl_max_bounds(2) by linarith
qed

lemma upfun_710: "upfun (Fin 710) (1 / 4) = NInf"
  using dbl_max_ge exp_710_overflows by (intro upfun_overflow) simp_all

lemma trial_forward:
  "trial E P R iseq s = bind_e (forward E P R iseq s) (condition E R iseq)"
  by (auto simp: trial_def forward_def condition_def survivors_def bind_e_def split: sum.splits)

lemma set_before_Inr:
  assumes "set_before E (Suc k) si s = Inr s'"
  shows "s' = s\<lparr>rbef := (rbef s)[k := (if 1 < si then raft s ! (k - 1)
                                         else replicate (nsmp E) (cfg_rbef E ! k))],
                cbef := (if fitcnf E
                         then (cbef s)[k := (if 1 < si then caft s ! (k - 1)
                                            else replicate (nsmp E) (cfg_cbef E ! k))]
                         else cbef s)\<rparr>"
    and "1 < si \<Longrightarrow> 0 < k"
  using assms
  by (auto simp: set_before_def bind_e_eq_Inr row_eq_Inr Let_def split: if_splits)

lemma hazard_step_Inr:
  assumes "hazard_step P (Suc k) si s = Inr s'"
  shows "s' = (if 1 < si then s\<lparr>xt := (xt s)[k := map (\<lambda>v. upfun v (h P)) (xt s ! (k - 1))]\<rparr>
               else s)"
  using assms
  by (auto simp: hazard_step_def bind_e_eq_Inr row_eq_Inr split: if_splits)

lemma accumulate_Inr:
  assumes "accumulate E P R (Suc k) s = Inr s'"
  shows "s' = s\<lparr>xt := (xt s)[k := normrnd_row (map (\<lambda>v. fplus v (seqllr E ! k)) (xt s ! k))
                 (sqrt (real (seqlen E ! k)) * sinf P) (zinf R (Suc k))]\<rparr>"
  using assms
  by (auto simp: accumulate_def bind_e_eq_Inr row_eq_Inr)

lemma respond_step_Inr:
  assumes "respond_step P R (Suc k) s = Inr s'"
  shows "s' = s\<lparr>raft := (raft s)[k := map respond (decision_var P R (Suc k) (xt s ! k))]\<rparr>"
  using assms
  by (auto simp: respond_step_def bind_e_eq_Inr row_eq_Inr)

lemma confidence_step_Inr:
  assumes "confidence_step P R (Suc k) s = Inr s'"
  shows "s' = s\<lparr>caft := (caft s)[k := map (\<lambda>xc. confide xc (tcnf P))
                 (confidence_var P R (Suc k) (xt s ! k) (raft s ! k) (rbef s ! k))]\<rparr>"
  using assms
  by (auto simp: confidence_step_def bind_e_eq_Inr row_eq_Inr)


lemma forward_Inr:
  assumes "forward E P R (Suc k) s = Inr sm"
  shows "xt sm = (xt s)[k := normrnd_row
            (map (\<lambda>v. fplus v (seqllr E ! k))
               (if 1 < seqind E ! k then map (\<lambda>v. upfun v (h P)) (xt s ! (k - 1)) else xt s ! k))
            (sqrt (real (seqlen E ! k)) * sinf P) (zinf R (Suc k))]"
    and "raft sm = (raft s)[k := map respond (decision_var P R (Suc k) (xt sm ! k))]"
    and "rbef sm = (rbef s)[k := (if 1 < seqind E ! k then raft s ! (k - 1)
                                  else replicate (nsmp E) (cfg_rbef E ! k))]"
    and "cbef sm = (if fitcnf E
                    then (cbef s)[k := (if 1 < seqind E ! k then caft s ! (k - 1)
                                        else replicate (nsmp E) (cfg_cbef E ! k))]
                    else cbef s)"
    and "caft sm = (if fitcnf E
                    then (caft s)[k := map (\<lambda>xc. confide xc (tcnf P))
                           (confidence_var P R (Suc k) (xt sm ! k)
                              (map respond (decision_var P R (Suc k) (xt sm ! k))) (rbef sm ! k))]
                    else caft s)"
    and "psmp sm = psmp s"
    and "1 < seqind E ! k \<Longrightarrow> 0 < k"
    and "k < length (xt s)"
proof -
  from assms obtain si s1 s2 s3 s4 where
    si: "row (seqind E) (Suc k) = Inr si" and
    s1: "set_before E (Suc k) si s = Inr s1" and
    s2: "hazard_step P (Suc k) si s1 = Inr s2" and
    s3: "accumulate E P R (Suc k) s2 = Inr s3" and
    s4: "respond_step P R (Suc k) s3 = Inr s4" and
    sm: "(if fitcnf E then confidence_step P R (Suc k) s4 else Inr s4) = Inr sm"
    unfolding forward_def bind_e_eq_Inr by blast
  from si have si_eq: "si = seqind E ! k" by (simp add: row_eq_Inr)
  note e1 = set_before_Inr(1) [OF s1]
  note e2 = hazard_step_Inr [OF s2]
  note e3 = accumulate_Inr [OF s3]
  note e4 = respond_step_Inr [OF s4]
  have em: "sm = (if fitcnf E
                  then s4\<lparr>caft := (caft s4)[k := map (\<lambda>xc. confide xc (tcnf P))
                         (confidence_var P R (Suc k) (xt s4 ! k) (raft s4 ! k) (rbef s4 ! k))]\<rparr>
                  else s4)"
  proof (cases "fitcnf E")
    case True
    with sm have "confidence_step P R (Suc k) s4 = Inr sm" by simp
    from confidence_step_Inr [OF this] True show ?thesis by simp
  next
    case False
    with sm show ?thesis by simp
  qed
  have x1: "xt s1 = xt s" and r1: "raft s1 = raft s" and c1: "caft s1 = caft s"
    and p1: "psmp s1 = psmp s"
    and rb1: "rbef s1 = (rbef s)[k := (if 1 < seqind E ! k then raft s ! (k - 1)
                                  else replicate (nsmp E) (cfg_rbef E ! k))]"
    and cb1: "cbef s1 = (if fitcnf E
                    then (cbef s)[k := (if 1 < seqind E ! k then caft s ! (k - 1)
                                        else replicate (nsmp E) (cfg_cbef E ! k))]
                    else cbef s)"
    unfolding e1 si_eq by simp_all
  have x2: "xt s2 = (if 1 < seqind E ! k
                     then (xt s)[k := map (\<lambda>v. upfun v (h P)) (xt s ! (k - 1))] else xt s)"
    and r2: "raft s2 = raft s" and c2: "caft s2 = caft s" and p2: "psmp s2 = psmp s"
    and rb2: "rbef s2 = rbef s1" and cb2: "cbef s2 = cbef s1"
    unfolding e2 si_eq using x1 r1 c1 p1 by simp_all
  from s3 have "k < length (xt s2)"
    by (auto simp: accumulate_def bind_e_eq_Inr row_eq_Inr)
  then show klen: "k < length (xt s)" using x2 by (simp split: if_splits)
  show "1 < seqind E ! k \<Longrightarrow> 0 < k" using set_before_Inr(2) [OF s1] si_eq by simp
  have x3: "xt s3 = (xt s)[k := normrnd_row
            (map (\<lambda>v. fplus v (seqllr E ! k))
               (if 1 < seqind E ! k then map (\<lambda>v. upfun v (h P)) (xt s ! (k - 1)) else xt s ! k))
            (sqrt (real (seqlen E ! k)) * sinf P) (zinf R (Suc k))]"
    unfolding e3 using klen x2 by simp
  have r3: "raft s3 = raft s" and c3: "caft s3 = caft s" and p3: "psmp s3 = psmp s"
    and rb3: "rbef s3 = rbef s1" and cb3: "cbef s3 = cbef s1"
    unfolding e3 using r2 c2 p2 rb2 cb2 by simp_all
  have x4: "xt s4 = xt s3" and c4: "caft s4 = caft s" and p4: "psmp s4 = psmp s"
    and rb4: "rbef s4 = rbef s1" and cb4: "cbef s4 = cbef s1"
    and r4: "raft s4 = (raft s)[k := map respond (decision_var P R (Suc k) (xt s3 ! k))]"
    unfolding e4 using r3 c3 p3 rb3 cb3 by simp_all
  have xm: "xt sm = xt s3" and rm: "raft sm = raft s4" and rbm: "rbef sm = rbef s1"
    and cbm: "cbef sm = cbef s1" and pm: "psmp sm = psmp s"
    unfolding em using x4 rb4 cb4 p4 by simp_all
  show "xt sm = (xt s)[k := normrnd_row
            (map (\<lambda>v. fplus v (seqllr E ! k))
               (if 1 < seqind E ! k then map (\<lambda>v. upfun v (h P)) (xt s ! (k - 1)) else xt s ! k))
            (sqrt (real (seqlen E ! k)) * sinf P) (zinf R (Suc k))]"
    using xm x3 by simp
  show "raft sm = (raft s)[k := map respond (decision_var P R (Suc k) (xt sm ! k))]"
    using rm r4 xm by simp
  show "rbef sm = (rbef s)[k := (if 1 < seqind E ! k then raft s ! (k - 1)
                                  else replicate (nsmp E) (cfg_rbef E ! k))]"
    using rbm rb1 by simp
  show "cbef sm = (if fitcnf E
                    then (cbef s)[k := (if 1 < seqind E ! k then caft s ! (k - 1)
                                        else replicate (nsmp E) (cfg_cbef E ! k))]
                    else cbef s)"
    using cbm cb1 by simp
  show "psmp sm = psmp s" by (rule pm)
  show "caft sm = (if fitcnf E
                    then (caft s)[k := map (\<lambda>xc. confide xc (tcnf P))
                           (confidence_var P R (Suc k) (xt sm ! k)
                              (map respond (decision_var P R (Suc k) (xt sm ! k))) (rbef sm ! k))]
                    else caft s)"
  proof (cases "fitcnf E")
    case False
    then show ?thesis unfolding em using c4 by simp
  next
    case True
    with sm have cs: "confidence_step P R (Suc k) s4 = Inr sm" by simp
    then have kr: "k < length (raft s4)"
      by (auto simp: confidence_step_def bind_e_eq_Inr row_eq_Inr)
    then have kr': "k < length (raft s)" using r4 by simp
    have a: "raft s4 ! k = map respond (decision_var P R (Suc k) (xt sm ! k))"
      using r4 kr' xm by simp
    have b: "rbef s4 = rbef sm" using rb4 rbm by simp
    have c: "xt s4 = xt sm" using x4 xm by simp
    have "caft sm = (caft s4)[k := map (\<lambda>xc. confide xc (tcnf P))
                         (confidence_var P R (Suc k) (xt s4 ! k) (raft s4 ! k) (rbef s4 ! k))]"
      unfolding em using True by simp
    then show ?thesis using True a b c c4 by simp
  qed
qed

lemma length_normrnd_row [simp]: "length (normrnd_row mus sigma z) = length mus"
  by (simp add: normrnd_row_def)


lemma length_decision_var [simp]: "length (decision_var P R iseq x) = length x"
  by (simp add: decision_var_def)

lemma length_confidence_var [simp]: "length (confidence_var P R iseq x r rb) = length x"
  by (simp add: confidence_var_def)

lemma list_all_update:
  "list_all Q xs \<Longrightarrow> Q x \<Longrightarrow> list_all Q (xs[i := x])"
  using set_update_subset_insert [of xs i x] by (auto simp: list_all_iff)

lemma list_all_nth: "list_all Q xs \<Longrightarrow> i < length xs \<Longrightarrow> Q (xs ! i)"
  by (simp add: list_all_length)

lemma match_rsp_Inr:
  assumes "match_rsp E (Suc k) s = Inr ires"
  shows "ires = map (\<lambda>a. eq_lbl a (cfg_raft E ! k)) (raft s ! k)"
  using assms by (auto simp: match_rsp_def bind_e_eq_Inr row_eq_Inr)

lemma match_cnf_Inr:
  assumes "match_cnf E (Suc k) s = Inr ires"
  shows "ires = map (\<lambda>j. eq_lbl (raft s ! k ! j) (cfg_raft E ! k) \<and>
                        eq_lbl (caft s ! k ! j) (cfg_caft E ! k)) [0..<length (raft s ! k)]"
  using assms by (auto simp: match_cnf_def bind_e_eq_Inr row_eq_Inr)

lemma survivors_Inr:
  assumes "survivors E (Suc k) s = Inr ires"
  shows "length ires = length (raft s ! k)"
    and "j < length (raft s ! k) \<Longrightarrow>
           ires ! j = (eq_lbl (raft s ! k ! j) (cfg_raft E ! k) \<and>
                      (fitcnf E \<longrightarrow> eq_lbl (caft s ! k ! j) (cfg_caft E ! k)))"
  using assms
  by (auto simp: survivors_def split: if_splits dest!: match_rsp_Inr match_cnf_Inr)

lemma resample_Inr:
  assumes "resample E R (Suc k) ires s = Inr s'"
  shows "rbef s' = rbef s" and "raft s' = raft s" and "cbef s' = cbef s"
    and "caft s' = caft s"
    and "psmp s' = (psmp s)[k := mean_l ires]"
    and "any_l ires \<Longrightarrow>
           \<exists>idx x'. randsample (find_l ires) (nsmp E) (pick R (Suc k)) = Inr idx \<and>
                    gather (xt s ! k) idx = Inr x' \<and> xt s' = (xt s)[k := x']"
    and "\<not> any_l ires \<Longrightarrow> xt s' = (xt s)[k := replicate (length (xt s ! k)) (Fin 0)]"
  using assms
  by (auto simp: resample_def Let_def bind_e_eq_Inr row_eq_Inr split: if_splits)

lemma condition_Inr:
  assumes "condition E R (Suc k) s = Inr s'"
  shows "rbef s' = rbef s" and "raft s' = raft s" and "cbef s' = cbef s"
    and "caft s' = caft s"
    and "\<not> resamp E \<Longrightarrow> s' = s"
    and "resamp E \<Longrightarrow>
           \<exists>ires. survivors E (Suc k) s = Inr ires \<and> resample E R (Suc k) ires s = Inr s'"
  using assms
  by (auto simp: condition_def bind_e_eq_Inr split: if_splits dest: resample_Inr(1-4))

lemma mean_l_value:
  "bs \<noteq> [] \<Longrightarrow> mean_l bs = Fin (real (length (filter (\<lambda>b. b) bs)) / real (length bs))"
  by (simp add: mean_l_def)

lemma mean_l_bounds:
  assumes "bs \<noteq> []"
  shows "0 \<le> real (length (filter (\<lambda>b. b) bs)) / real (length bs)"
    and "real (length (filter (\<lambda>b. b) bs)) / real (length bs) \<le> 1"
  using assms length_filter_le [of "\<lambda>b. b" bs]
  by (simp_all add: divide_le_eq_1)

lemma mean_l_one:
  assumes "bs \<noteq> []"
  shows "real (length (filter (\<lambda>b. b) bs)) / real (length bs) = 1 \<longleftrightarrow> (\<forall>j<length bs. bs ! j)"
proof -
  have "length (filter (\<lambda>b. b) bs) = length bs \<longleftrightarrow> (\<forall>b\<in>set bs. b)"
  proof
    assume eq: "length (filter (\<lambda>b. b) bs) = length bs"
    show "\<forall>b\<in>set bs. b"
    proof (rule ccontr)
      assume "\<not> (\<forall>b\<in>set bs. b)"
      then obtain b where "b \<in> set bs" "\<not> b" by blast
      then have "length (filter (\<lambda>b. b) bs) < length bs" by (rule length_filter_less)
      with eq show False by simp
    qed
  next
    assume "\<forall>b\<in>set bs. b"
    then have "filter (\<lambda>b. b) bs = bs" by (rule filter_True)
    then show "length (filter (\<lambda>b. b) bs) = length bs" by simp
  qed
  also have "\<dots> \<longleftrightarrow> (\<forall>j<length bs. bs ! j)"
    by (auto simp: all_set_conv_all_nth)
  finally show ?thesis using assms by (simp add: eq_commute [of "length bs"])
qed

lemma mean_l_zero:
  assumes "bs \<noteq> []"
  shows "real (length (filter (\<lambda>b. b) bs)) / real (length bs) = 0 \<longleftrightarrow> (\<forall>j<length bs. \<not> bs ! j)"
proof -
  have "filter (\<lambda>b. b) bs = [] \<longleftrightarrow> (\<forall>b\<in>set bs. \<not> b)"
    by (simp add: filter_empty_conv)
  also have "\<dots> \<longleftrightarrow> (\<forall>j<length bs. \<not> bs ! j)"
    by (auto simp: all_set_conv_all_nth)
  finally show ?thesis using assms by simp
qed

lemma any_l_nth: "any_l bs \<longleftrightarrow> (\<exists>j<length bs. bs ! j)"
  by (simp add: any_l_def list_ex_length)

lemma set_find_l: "set (find_l bs) = {Suc j |j. j < length bs \<and> bs ! j}"
  by (auto simp: find_l_def)

lemma find_l_empty: "find_l bs = [] \<longleftrightarrow> \<not> any_l bs"
  by (auto simp: find_l_def any_l_nth filter_empty_conv)

lemma randsample_length:
  "randsample pop k pk = Inr idx \<Longrightarrow> length idx = k"
  by (auto simp: randsample_def Let_def split: if_splits)

lemma randsample_closed:
  assumes "randsample pop k pk = Inr idx" and "length pop \<noteq> 1"
  shows "set idx \<subseteq> set pop"
  using assms
  by (auto simp: randsample_def Let_def split: if_splits)

lemma randsample_scalar:
  assumes "randsample [n] k pk = Inr idx"
  shows "idx = map (\<lambda>i. 1 + pk i mod n) [0..<k]"
  using assms
  by (auto simp: randsample_def Let_def split: if_splits)

lemma randsample_find_range:
  assumes "randsample (find_l bs) k pk = Inr idx" and "i \<in> set idx"
  shows "0 < i \<and> i \<le> length bs"
proof (cases "length (find_l bs) = 1")
  case False
  with randsample_closed [OF assms(1)] assms(2) have "i \<in> set (find_l bs)" by auto
  then show ?thesis by (auto simp: set_find_l)
next
  case True
  then obtain n where n: "find_l bs = [n]"
    by (cases "find_l bs") auto
  then have "n \<in> set (find_l bs)" by simp
  then have nr: "0 < n \<and> n \<le> length bs" by (auto simp: set_find_l)
  from assms(1) have "randsample [n] k pk = Inr idx" unfolding n .
  then have "idx = map (\<lambda>i. 1 + pk i mod n) [0..<k]"
    by (rule randsample_scalar)
  with assms(2) obtain m where "i = 1 + pk m mod n" by auto
  moreover have "pk m mod n < n" using nr by simp
  ultimately show ?thesis using nr by linarith
qed

lemma randsample_find_ok:
  assumes "any_l bs"
  shows "\<exists>idx. randsample (find_l bs) k pk = Inr idx"
proof -
  from assms have ne: "find_l bs \<noteq> []" by (simp add: find_l_empty)
  have "length (find_l bs) = 1 \<Longrightarrow> hd (find_l bs) \<noteq> 0"
  proof -
    assume "length (find_l bs) = 1"
    then obtain n where n: "find_l bs = [n]" by (cases "find_l bs") auto
    then have "n \<in> set (find_l bs)" by simp
    then have "0 < n" by (auto simp: set_find_l)
    then show ?thesis using n by simp
  qed
  with ne show ?thesis
    by (auto simp: randsample_def Let_def)
qed

lemma gather_Inr:
  "gather x idx = Inr x' \<Longrightarrow> x' = map (\<lambda>i. x ! (i - 1)) idx"
  by (auto simp: gather_def split: if_splits)

lemma gather_ok:
  assumes "\<forall>i\<in>set idx. 0 < i \<and> i \<le> length x"
  shows "gather x idx = Inr (map (\<lambda>i. x ! (i - 1)) idx)"
proof -
  have a: "\<not> list_ex (\<lambda>i. i = 0) idx"
    using assms by (auto simp: list_ex_iff)
  have b: "\<not> list_ex (\<lambda>i. length x < i) idx"
    using assms by (auto simp: list_ex_iff not_less)
  show ?thesis by (simp add: gather_def a b)
qed

lemma init_shape: "shape E (init E)"
  by (simp add: shape_def init_def list_all_iff)

lemma shape_row:
  assumes "shape E s" and "i < nseq E"
  shows "length (xt s ! i) = nsmp E" and "length (rbef s ! i) = nsmp E"
    and "length (raft s ! i) = nsmp E" and "length (cbef s ! i) = nsmp E"
    and "length (caft s ! i) = nsmp E"
  using assms by (auto simp: shape_def list_all_length)

lemma shape_len:
  assumes "shape E s"
  shows "length (xt s) = nseq E" and "length (rbef s) = nseq E"
    and "length (raft s) = nseq E" and "length (cbef s) = nseq E"
    and "length (caft s) = nseq E" and "length (psmp s) = nseq E"
  using assms by (auto simp: shape_def)

lemma forward_shape:
  assumes f: "forward E P R (Suc k) s = Inr sm" and sh: "shape E s"
  shows "shape E sm"
proof -
  note eqs = forward_Inr [OF f]
  have k: "k < nseq E" using eqs(8) shape_len(1) [OF sh] by simp
  have k1: "1 < seqind E ! k \<Longrightarrow> k - 1 < nseq E" using k by simp
  have lx: "length (xt sm ! k) = nsmp E"
    using k k1 shape_len(1) [OF sh] shape_row(1) [OF sh]
    unfolding eqs(1) by simp
  have a: "list_all (\<lambda>r. length r = nsmp E) (xt sm)"
    unfolding eqs(1) using sh k k1 shape_row(1) [OF sh]
    by (intro list_all_update) (auto simp: shape_def)
  have b: "list_all (\<lambda>r. length r = nsmp E) (raft sm)"
    unfolding eqs(2) using sh lx
    by (intro list_all_update) (auto simp: shape_def)
  have c: "list_all (\<lambda>r. length r = nsmp E) (rbef sm)"
    unfolding eqs(3) using sh k1 shape_row(3) [OF sh]
    by (intro list_all_update) (auto simp: shape_def)
  have d: "list_all (\<lambda>r. length r = nsmp E) (cbef sm)"
    unfolding eqs(4) using sh k1 shape_row(5) [OF sh]
    by (auto intro!: list_all_update simp: shape_def)
  have e: "list_all (\<lambda>r. length r = nsmp E) (caft sm)"
    unfolding eqs(5) using sh lx
    by (auto intro!: list_all_update simp: shape_def)
  have l: "length (xt sm) = nseq E" "length (raft sm) = nseq E" "length (rbef sm) = nseq E"
    "length (cbef sm) = nseq E" "length (caft sm) = nseq E" "length (psmp sm) = nseq E"
    unfolding eqs(1-6) using shape_len [OF sh] by simp_all
  show ?thesis unfolding shape_def using a b c d e l by simp
qed

lemma condition_shape:
  assumes c: "condition E R (Suc k) s = Inr s'" and sh: "shape E s" and k: "k < nseq E"
  shows "shape E s'"
proof (cases "resamp E")
  case False
  with condition_Inr(5) [OF c] sh show ?thesis by simp
next
  case True
  from condition_Inr(6) [OF c True] obtain ires where
    r: "resample E R (Suc k) ires s = Inr s'" by blast
  note eqs = resample_Inr [OF r]
  have "\<exists>x'. xt s' = (xt s)[k := x'] \<and> length x' = nsmp E"
  proof (cases "any_l ires")
    case True
    from eqs(6) [OF True] obtain idx x' where
      i: "randsample (find_l ires) (nsmp E) (pick R (Suc k)) = Inr idx" and
      g: "gather (xt s ! k) idx = Inr x'" and x: "xt s' = (xt s)[k := x']" by blast
    have "length x' = nsmp E"
      using gather_Inr [OF g] randsample_length [OF i] by simp
    with x show ?thesis by blast
  next
    case False
    from eqs(7) [OF False] shape_row(1) [OF sh k] show ?thesis
      by (metis length_replicate)
  qed
  then obtain x' where x: "xt s' = (xt s)[k := x']" and lx: "length x' = nsmp E" by blast
  have a: "list_all (\<lambda>r. length r = nsmp E) (xt s')"
    unfolding x using sh lx by (auto intro!: list_all_update simp: shape_def)
  show ?thesis
    unfolding shape_def using a sh x eqs(1-5) by (simp add: shape_def)
qed

lemma trial_Inr:
  "trial E P R iseq s = Inr s' \<longleftrightarrow>
     (\<exists>sm. forward E P R iseq s = Inr sm \<and> condition E R iseq sm = Inr s')"
  by (simp add: trial_forward bind_e_eq_Inr)

lemma trial_shape:
  assumes "trial E P R (Suc k) s = Inr s'" and "shape E s"
  shows "shape E s'" and "k < nseq E"
proof -
  from assms(1) obtain sm where f: "forward E P R (Suc k) s = Inr sm"
    and c: "condition E R (Suc k) sm = Inr s'" by (auto simp: trial_Inr)
  show k: "k < nseq E" using forward_Inr(8) [OF f] shape_len(1) [OF assms(2)] by simp
  show "shape E s'" using condition_shape [OF c forward_shape [OF f assms(2)] k] .
qed

lemma sim_upto_shape:
  "sim_upto E P R k = Inr s \<Longrightarrow> shape E s \<and> k \<le> nseq E"
proof (induction k arbitrary: s)
  case 0
  then show ?case using init_shape [of E] by auto
next
  case (Suc k)
  then obtain s0 where s0: "sim_upto E P R k = Inr s0"
    and t: "trial E P R (Suc k) s0 = Inr s" by (auto simp: bind_e_eq_Inr)
  from Suc.IH [OF s0] have "shape E s0" by simp
  from trial_shape [OF t this] show ?case by simp
qed

lemma sim_upto_prefix:
  "sim_upto E P R n = Inr sf \<Longrightarrow> k \<le> n \<Longrightarrow> \<exists>s. sim_upto E P R k = Inr s"
proof (induction n arbitrary: sf)
  case 0
  then show ?case by simp
next
  case (Suc n)
  show ?case
  proof (cases "k = Suc n")
    case True
    with Suc.prems show ?thesis by blast
  next
    case False
    with Suc.prems have "k \<le> n" by simp
    moreover from Suc.prems obtain s0 where "sim_upto E P R n = Inr s0"
      by (auto simp: bind_e_eq_Inr)
    ultimately show ?thesis using Suc.IH by blast
  qed
qed

lemma forward_frame:
  assumes "forward E P R (Suc k) s = Inr sm" and "i \<noteq> k"
  shows "rows_at sm i = rows_at s i"
  using assms(2) unfolding rows_at_def forward_Inr(1-6) [OF assms(1)]
  by simp

lemma condition_frame:
  assumes c: "condition E R (Suc k) s = Inr s'" and i: "i \<noteq> k"
  shows "rows_at s' i = rows_at s i"
proof (cases "resamp E")
  case False
  with condition_Inr(5) [OF c] show ?thesis by simp
next
  case True
  from condition_Inr(6) [OF c True] obtain ires where
    r: "resample E R (Suc k) ires s = Inr s'" by blast
  note eqs = resample_Inr [OF r]
  have "xt s' ! i = xt s ! i"
    using eqs(6,7) i by (cases "any_l ires") auto
  then show ?thesis unfolding rows_at_def eqs(1-5) using i by simp
qed

lemma trial_frame:
  assumes "trial E P R (Suc k) s = Inr s'" and "i \<noteq> k"
  shows "rows_at s' i = rows_at s i"
proof -
  from assms(1) obtain sm where f: "forward E P R (Suc k) s = Inr sm"
    and c: "condition E R (Suc k) sm = Inr s'" by (auto simp: trial_Inr)
  show ?thesis
    using forward_frame [OF f assms(2)] condition_frame [OF c assms(2)] by simp
qed

lemma sim_upto_untouched:
  "sim_upto E P R k = Inr s \<Longrightarrow> k \<le> i \<Longrightarrow> rows_at s i = rows_at (init E) i"
proof (induction k arbitrary: s)
  case 0
  then show ?case by simp
next
  case (Suc k)
  then obtain s0 where s0: "sim_upto E P R k = Inr s0"
    and t: "trial E P R (Suc k) s0 = Inr s" by (auto simp: bind_e_eq_Inr)
  from Suc.prems have "i \<noteq> k" "k \<le> i" by simp_all
  with trial_frame [OF t] Suc.IH [OF s0] show ?case by simp
qed

lemma sim_upto_later:
  "sim_upto E P R n = Inr sf \<Longrightarrow> sim_upto E P R k = Inr s \<Longrightarrow> k \<le> n \<Longrightarrow> i < k \<Longrightarrow>
     rows_at sf i = rows_at s i"
proof (induction n arbitrary: sf)
  case 0
  then show ?case by simp
next
  case (Suc n)
  show ?case
  proof (cases "k = Suc n")
    case True
    with Suc.prems show ?thesis by simp
  next
    case False
    with Suc.prems have kn: "k \<le> n" by simp
    from Suc.prems(1) obtain s0 where s0: "sim_upto E P R n = Inr s0"
      and t: "trial E P R (Suc n) s0 = Inr sf" by (auto simp: bind_e_eq_Inr)
    have "i \<noteq> n" using kn Suc.prems(4) by simp
    with trial_frame [OF t] Suc.IH [OF s0 Suc.prems(2) kn Suc.prems(4)] show ?thesis by simp
  qed
qed

lemma init_rows:
  "i < nseq E \<Longrightarrow>
     rows_at (init E) i =
       (replicate (nsmp E) (Fin 0), replicate (nsmp E) None, replicate (nsmp E) None,
        replicate (nsmp E) None, replicate (nsmp E) None, Fin 1)"
  by (simp add: rows_at_def init_def)

lemma forward_ok:
  assumes sh: "shape E s" and k: "k < nseq E" and wf: "wf_env E"
    and first: "1 < seqind E ! k \<Longrightarrow> 0 < k"
  shows "\<exists>sm. forward E P R (Suc k) s = Inr sm"
proof -
  note l = shape_len [OF sh]
  have ls: "k < length (seqind E)" "k < length (seqllr E)" "k < length (seqlen E)"
    "k < length (cfg_rbef E)" "k < length (cfg_cbef E)"
    using wf k by (simp_all add: wf_env_def)
  have si: "row (seqind E) (Suc k) = Inr (seqind E ! k)" using ls by (simp add: row_Suc)
  have "\<exists>s1. set_before E (Suc k) (seqind E ! k) s = Inr s1"
    using l k ls first by (auto simp: set_before_def row_def Let_def)
  then obtain s1 where s1: "set_before E (Suc k) (seqind E ! k) s = Inr s1" by blast
  note e1 = set_before_Inr(1) [OF s1]
  have "\<exists>s2. hazard_step P (Suc k) (seqind E ! k) s1 = Inr s2"
    using l k first unfolding e1 by (auto simp: hazard_step_def row_def)
  then obtain s2 where s2: "hazard_step P (Suc k) (seqind E ! k) s1 = Inr s2" by blast
  note e2 = hazard_step_Inr [OF s2]
  have l2: "length (xt s2) = nseq E" "length (raft s2) = nseq E" "length (rbef s2) = nseq E"
    "length (caft s2) = nseq E"
    unfolding e2 e1 using l by simp_all
  have "\<exists>s3. accumulate E P R (Suc k) s2 = Inr s3"
    using l2 k ls by (simp add: accumulate_def row_Suc)
  then obtain s3 where s3: "accumulate E P R (Suc k) s2 = Inr s3" by blast
  note e3 = accumulate_Inr [OF s3]
  have l3: "length (xt s3) = nseq E" "length (raft s3) = nseq E" "length (rbef s3) = nseq E"
    unfolding e3 using l2 by simp_all
  have "\<exists>s4. respond_step P R (Suc k) s3 = Inr s4"
    using l3 k by (simp add: respond_step_def row_Suc)
  then obtain s4 where s4: "respond_step P R (Suc k) s3 = Inr s4" by blast
  note e4 = respond_step_Inr [OF s4]
  have l4: "length (xt s4) = nseq E" "length (raft s4) = nseq E" "length (rbef s4) = nseq E"
    unfolding e4 using l3 by simp_all
  have "\<exists>s5. confidence_step P R (Suc k) s4 = Inr s5"
    using l4 k by (simp add: confidence_step_def row_Suc)
  then show ?thesis
    unfolding forward_def using si s1 s2 s3 s4 by auto
qed

lemma condition_ok:
  assumes sh: "shape E s" and k: "k < nseq E" and wf: "wf_env E"
  shows "\<exists>s'. condition E R (Suc k) s = Inr s'"
proof (cases "resamp E")
  case False
  then show ?thesis by (simp add: condition_def)
next
  case True
  note l = shape_len [OF sh]
  have ls: "k < length (cfg_raft E)" "k < length (cfg_caft E)"
    using wf k by (simp_all add: wf_env_def)
  have "\<exists>ires. survivors E (Suc k) s = Inr ires"
    using l k ls by (simp add: survivors_def match_rsp_def match_cnf_def row_Suc)
  then obtain ires where sv: "survivors E (Suc k) s = Inr ires" by blast
  have li: "length ires = nsmp E"
    using survivors_Inr(1) [OF sv] shape_row(3) [OF sh k] by simp
  have "\<exists>s'. resample E R (Suc k) ires s = Inr s'"
  proof (cases "any_l ires")
    case False
    then show ?thesis using l k by (simp add: resample_def row_Suc)
  next
    case True
    from randsample_find_ok [OF True] obtain idx where
      idx: "randsample (find_l ires) (nsmp E) (pick R (Suc k)) = Inr idx" by blast
    have "\<forall>i\<in>set idx. 0 < i \<and> i \<le> length (xt s ! k)"
      using randsample_find_range [OF idx] li shape_row(1) [OF sh k] by simp
    from gather_ok [OF this] show ?thesis
      using True idx l k by (simp add: resample_def row_Suc)
  qed
  with sv True show ?thesis by (auto simp: condition_def)
qed

lemma sim_upto_ok:
  assumes wf: "wf_env E"
  shows "k \<le> nseq E \<Longrightarrow> \<exists>s. sim_upto E P R k = Inr s"
proof (induction k)
  case 0
  show ?case by simp
next
  case (Suc k)
  then obtain s where s: "sim_upto E P R k = Inr s" by auto
  have sh: "shape E s" using sim_upto_shape [OF s] by simp
  have k: "k < nseq E" using Suc.prems by simp
  have first: "1 < seqind E ! k \<Longrightarrow> 0 < k"
  proof (rule ccontr)
    assume a: "1 < seqind E ! k" and "\<not> 0 < k"
    then have "k = 0" by simp
    moreover have "seqind E \<noteq> []" using wf k by (auto simp: wf_env_def)
    ultimately have "seqind E ! k = hd (seqind E)" by (simp add: hd_conv_nth)
    with a wf \<open>seqind E \<noteq> []\<close> show False by (simp add: wf_env_def)
  qed
  from forward_ok [OF sh k wf first] obtain sm where
    f: "forward E P R (Suc k) s = Inr sm" by blast
  from condition_ok [OF forward_shape [OF f sh] k wf] obtain s' where
    "condition E R (Suc k) sm = Inr s'" by blast
  with f s show ?case by (auto simp: trial_Inr)
qed

section \<open>Responses and confidences are 1 or 2\<close>

lemma sim_r_trial:
  assumes "sim_r E P R = Inr sf" and "k < nseq E"
  obtains s sm s' where "sim_upto E P R k = Inr s" and "forward E P R (Suc k) s = Inr sm"
    and "condition E R (Suc k) sm = Inr s'" and "sim_upto E P R (Suc k) = Inr s'"
    and "rows_at sf k = rows_at s' k"
proof -
  from assms have n: "sim_upto E P R (nseq E) = Inr sf" and le: "Suc k \<le> nseq E"
    by (simp_all add: sim_r_def)
  from sim_upto_prefix [OF n le] obtain s' where s': "sim_upto E P R (Suc k) = Inr s'"
    by blast
  then obtain s where s: "sim_upto E P R k = Inr s" and t: "trial E P R (Suc k) s = Inr s'"
    by (auto simp: bind_e_eq_Inr)
  from t obtain sm where f: "forward E P R (Suc k) s = Inr sm"
    and c: "condition E R (Suc k) sm = Inr s'" by (auto simp: trial_Inr)
  have "rows_at sf k = rows_at s' k"
    using sim_upto_later [OF n s' le, of k] by simp
  with s f c s' show ?thesis by (rule that)
qed

lemma respond_cases: "respond xr = Some 1 \<or> respond xr = Some 2"
  by (simp add: respond_def)

lemma confide_cases: "confide xc t = Some 1 \<or> confide xc t = Some 2"
  by (simp add: confide_def)

lemma forward_rows:
  assumes f: "forward E P R (Suc k) s = Inr sm" and sh: "shape E s"
  shows "raft sm ! k = map respond (decision_var P R (Suc k) (xt sm ! k))"
    and "fitcnf E \<Longrightarrow> caft sm ! k = map (\<lambda>xc. confide xc (tcnf P))
           (confidence_var P R (Suc k) (xt sm ! k) (raft sm ! k) (rbef sm ! k))"
    and "\<not> fitcnf E \<Longrightarrow> caft sm ! k = caft s ! k"
    and "length (xt sm ! k) = nsmp E"
    and "k < nseq E"
proof -
  note eqs = forward_Inr [OF f]
  note l = shape_len [OF sh]
  show k: "k < nseq E" using eqs(8) l by simp
  show r: "raft sm ! k = map respond (decision_var P R (Suc k) (xt sm ! k))"
    unfolding eqs(2) using k l by simp
  show "fitcnf E \<Longrightarrow> caft sm ! k = map (\<lambda>xc. confide xc (tcnf P))
           (confidence_var P R (Suc k) (xt sm ! k) (raft sm ! k) (rbef sm ! k))"
    unfolding r unfolding eqs(5) using k l by simp
  show "\<not> fitcnf E \<Longrightarrow> caft sm ! k = caft s ! k"
    unfolding eqs(5) by simp
  show "length (xt sm ! k) = nsmp E"
    using shape_row(1) [OF forward_shape [OF f sh] k] .
qed

text \<open>
  C8. Whatever the parameters, the evidence and the random draws, every simulated response
  \<open>raft\<close> of a finished run is 1 or 2, and so is every simulated confidence
  \<open>caft\<close> of a run that fits confidence.
\<close>

theorem labels_in_range:
  assumes "sim_r E P R = Inr sf" and "k < nseq E" and "j < nsmp E"
  shows "(raft sf ! k ! j = Some 1 \<or> raft sf ! k ! j = Some 2) \<and>
         (fitcnf E \<longrightarrow> (caft sf ! k ! j = Some 1 \<or> caft sf ! k ! j = Some 2))"
proof -
  from assms(1,2) obtain s sm s' where s: "sim_upto E P R k = Inr s"
    and f: "forward E P R (Suc k) s = Inr sm" and c: "condition E R (Suc k) sm = Inr s'"
    and rs: "rows_at sf k = rows_at s' k" by (rule sim_r_trial)
  have sh: "shape E s" using sim_upto_shape [OF s] by simp
  note fr = forward_rows [OF f sh]
  have r: "raft sf ! k = raft sm ! k" and ca: "caft sf ! k = caft sm ! k"
    using rs condition_Inr(2,4) [OF c] by (simp_all add: rows_at_def)
  have j: "j < length (decision_var P R (Suc k) (xt sm ! k))" using fr(4) assms(3) by simp
  have a: "raft sf ! k ! j = Some 1 \<or> raft sf ! k ! j = Some 2"
    unfolding r fr(1) using j respond_cases by simp
  have b: "caft sf ! k ! j = Some 1 \<or> caft sf ! k ! j = Some 2" if "fitcnf E"
    unfolding ca fr(2) [OF that] using fr(4) assms(3) confide_cases by simp
  from a b show ?thesis by blast
qed

text \<open>
  A run that does not fit confidence computes no confidence at all: \<open>caft\<close> keeps the
  NaN of \<open>nan(nseq,nsmp)\<close>.
\<close>

lemma caft_nan_without_confidence:
  assumes "sim_r E P R = Inr sf" and "k < nseq E" and "j < nsmp E" and "\<not> fitcnf E"
  shows "caft sf ! k ! j = None"
proof -
  from assms(1,2) obtain s sm s' where s: "sim_upto E P R k = Inr s"
    and f: "forward E P R (Suc k) s = Inr sm" and c: "condition E R (Suc k) sm = Inr s'"
    and rs: "rows_at sf k = rows_at s' k" by (rule sim_r_trial)
  have sh: "shape E s" using sim_upto_shape [OF s] by simp
  note fr = forward_rows [OF f sh]
  have ca: "caft sf ! k = caft sm ! k"
    using rs condition_Inr(4) [OF c] by (simp add: rows_at_def)
  have "rows_at s k = rows_at (init E) k" using sim_upto_untouched [OF s] by simp
  then have "caft s ! k = replicate (nsmp E) None"
    using init_rows [OF assms(2)] by (simp add: rows_at_def)
  then show ?thesis unfolding ca fr(3) [OF assms(4)] using assms(3) by simp
qed

section \<open>Forward simulation leaves the weights at one\<close>

lemma sim_upto_psmp:
  "\<not> resamp E \<Longrightarrow> sim_upto E P R k = Inr s \<Longrightarrow> psmp s = replicate (nseq E) (Fin 1)"
proof (induction k arbitrary: s)
  case 0
  then show ?case by (auto simp: init_def)
next
  case (Suc k)
  then obtain s0 where s0: "sim_upto E P R k = Inr s0"
    and t: "trial E P R (Suc k) s0 = Inr s" by (auto simp: bind_e_eq_Inr)
  from t obtain sm where f: "forward E P R (Suc k) s0 = Inr sm"
    and c: "condition E R (Suc k) sm = Inr s" by (auto simp: trial_Inr)
  have "s = sm" using condition_Inr(5) [OF c] Suc.prems(1) by simp
  then show ?case using forward_Inr(6) [OF f] Suc.IH [OF Suc.prems(1) s0] by simp
qed

text \<open>
  C10. Without resampling the vector \<open>psmp\<close> of a finished run is all ones: it is
  initialised with \<open>ones(nseq,1)\<close>, the forward part of the body never writes it
  (\<open>forward_Inr\<close>) and the conditioning part is skipped.
\<close>

theorem forward_simulation_weight_one:
  assumes "\<not> resamp E" and "sim_r E P R = Inr sf"
  shows "psmp sf = replicate (nseq E) (Fin 1)"
  using assms sim_upto_psmp [of E P R "nseq E" sf] by (simp add: sim_r_def)

section \<open>Evaluating the concrete runs\<close>

lemmas run_defs = trial_def set_before_def hazard_step_def accumulate_def
    respond_step_def confidence_step_def match_cnf_def match_rsp_def resample_def row_def
    setrow_def normrnd_row_def normrnd_def decision_var_def confidence_var_def respond_def
    confide_def flt_def fgt_def eq_lbl_def neq_lbl_def signed_belief_def switch_gain_def
    mean_l_def any_l_def find_l_def randsample_def gather_def fplus_def ftimes_def
    upfun_zero_half upfun_zero_hazard Let_def upt_conv_Cons init_def

lemma run_A: "sim_r EA PA RA = Inr SA2"
  by (simp add: sim_r_def EA_def PA_def RA_def SA2_def run_defs numeral_2_eq_2)

theorem labels_in_range_witness:
  "sim_r EA PA RA = Inr SA2 \<and> (1::nat) < nseq EA \<and> (1::nat) < nsmp EA \<and>
   (raft SA2 ! 1 ! 1 = Some 1 \<or> raft SA2 ! 1 ! 1 = Some 2) \<and>
   (caft SA2 ! 1 ! 1 = Some 1 \<or> caft SA2 ! 1 ! 1 = Some 2)"
proof -
  have a: "(1::nat) < nseq EA" and b: "(1::nat) < nsmp EA" and c: "fitcnf EA"
    by (simp_all add: EA_def)
  from labels_in_range [OF run_A a b] c run_A a b show ?thesis by simp
qed

theorem forward_simulation_weight_one_witness:
  "\<not> resamp (EA\<lparr>seqind := [1, 1], resamp := False\<rparr>) \<and>
   sim_r (EA\<lparr>seqind := [1, 1], resamp := False\<rparr>) PA RA =
     Inr (SA2\<lparr>xt := [[Fin 1, Fin 1], [Fin 1, Fin (- 2)]],
              cbef := [[Some 1, Some 1], [Some 1, Some 1]], psmp := [Fin 1, Fin 1]\<rparr>) \<and>
   psmp (SA2\<lparr>xt := [[Fin 1, Fin 1], [Fin 1, Fin (- 2)]],
              cbef := [[Some 1, Some 1], [Some 1, Some 1]], psmp := [Fin 1, Fin 1]\<rparr>) =
     replicate (nseq (EA\<lparr>seqind := [1, 1], resamp := False\<rparr>)) (Fin 1)"
proof -
  have a: "\<not> resamp (EA\<lparr>seqind := [1, 1], resamp := False\<rparr>)" by simp
  have b: "sim_r (EA\<lparr>seqind := [1, 1], resamp := False\<rparr>) PA RA =
     Inr (SA2\<lparr>xt := [[Fin 1, Fin 1], [Fin 1, Fin (- 2)]],
              cbef := [[Some 1, Some 1], [Some 1, Some 1]], psmp := [Fin 1, Fin 1]\<rparr>)"
    by (simp add: sim_r_def EA_def PA_def RA_def SA2_def run_defs numeral_2_eq_2)
  from forward_simulation_weight_one [OF a b] a b show ?thesis by simp
qed

section \<open>The survival weight and the resampling\<close>

lemma count_true_nth:
  "length (filter (\<lambda>b. b) bs) = length (filter (\<lambda>j. bs ! j) [0..<length bs])"
proof -
  have "filter (\<lambda>b. b) (map (\<lambda>j. bs ! j) [0..<length bs]) =
        map (\<lambda>j. bs ! j) (filter (\<lambda>j. bs ! j) [0..<length bs])"
    by (simp add: filter_map comp_def)
  then have "length (filter (\<lambda>b. b) (map (\<lambda>j. bs ! j) [0..<length bs])) =
        length (filter (\<lambda>j. bs ! j) [0..<length bs])"
    by simp
  then show ?thesis by (simp add: map_nth)
qed

lemma conditioned_trial:
  assumes run: "sim_r E P R = Inr sf" and re: "resamp E" and k: "k < nseq E"
  obtains s sm ires where "sim_upto E P R k = Inr s" and "forward E P R (Suc k) s = Inr sm"
    and "survivors E (Suc k) sm = Inr ires" and "length ires = nsmp E"
    and "\<forall>j<nsmp E. ires ! j = matches E sf k j"
    and "psmp sf ! k = mean_l ires"
    and "raft sf ! k = raft sm ! k" and "caft sf ! k = caft sm ! k"
    and "length (xt sm ! k) = nsmp E"
    and "\<not> any_l ires \<Longrightarrow> xt sf ! k = replicate (nsmp E) (Fin 0)"
    and "any_l ires \<Longrightarrow> \<exists>idx. randsample (find_l ires) (nsmp E) (pick R (Suc k)) = Inr idx \<and>
           xt sf ! k = map (\<lambda>i. xt sm ! k ! (i - 1)) idx"
proof -
  from run k obtain s sm s' where s: "sim_upto E P R k = Inr s"
    and f: "forward E P R (Suc k) s = Inr sm" and c: "condition E R (Suc k) sm = Inr s'"
    and rs: "rows_at sf k = rows_at s' k" by (rule sim_r_trial)
  have sh: "shape E s" using sim_upto_shape [OF s] by simp
  have shm: "shape E sm" using forward_shape [OF f sh] .
  note lm = shape_len [OF shm]
  from condition_Inr(6) [OF c re] obtain ires where sv: "survivors E (Suc k) sm = Inr ires"
    and r: "resample E R (Suc k) ires sm = Inr s'" by blast
  note eqs = resample_Inr [OF r]
  have ra: "raft sf ! k = raft sm ! k" and ca: "caft sf ! k = caft sm ! k"
    and ps: "psmp sf ! k = psmp s' ! k" and xs: "xt sf ! k = xt s' ! k"
    using rs eqs(2,4) by (simp_all add: rows_at_def)
  have li: "length ires = nsmp E"
    using survivors_Inr(1) [OF sv] shape_row(3) [OF shm k] by simp
  have m: "\<forall>j<nsmp E. ires ! j = matches E sf k j"
    using survivors_Inr(2) [OF sv] shape_row(3) [OF shm k] ra ca
    by (simp add: matches_def)
  have p: "psmp sf ! k = mean_l ires"
    unfolding ps eqs(5) using lm k by simp
  have lx: "length (xt sm ! k) = nsmp E" using shape_row(1) [OF shm k] .
  have z: "xt sf ! k = replicate (nsmp E) (Fin 0)" if "\<not> any_l ires"
    unfolding xs eqs(7) [OF that] using lm k lx by simp
  have a: "\<exists>idx. randsample (find_l ires) (nsmp E) (pick R (Suc k)) = Inr idx \<and>
           xt sf ! k = map (\<lambda>i. xt sm ! k ! (i - 1)) idx" if "any_l ires"
  proof -
    from eqs(6) [OF that] obtain idx x' where
      i: "randsample (find_l ires) (nsmp E) (pick R (Suc k)) = Inr idx" and
      g: "gather (xt sm ! k) idx = Inr x'" and x: "xt s' = (xt sm)[k := x']" by blast
    have "xt sf ! k = x'" unfolding xs x using lm k by simp
    with gather_Inr [OF g] i show ?thesis by blast
  qed
  from s f sv li m p ra ca lx z a show ?thesis by (rule that)
qed

text \<open>
  C2. On every trial of a conditioned run with a non-empty population, the emitted
  weight \<open>psmp\<close> is the number of particles whose simulated response (and confidence, when
  confidence is fitted) equals the observed one, divided by the population size. It is
  the mean of the mask \<open>ires\<close> computed on the state before resampling; resampling leaves
  the responses and confidences as they were. The weight lies in [0,1], is 1 exactly when
  every particle matches and 0 exactly when none does.
\<close>

theorem survival_weight_fraction:
  assumes "sim_r E P R = Inr sf" and "resamp E" and "k < nseq E" and "0 < nsmp E"
  shows "psmp sf ! k =
           Fin (real (length (filter (matches E sf k) [0..<nsmp E])) / real (nsmp E)) \<and>
         0 \<le> real (length (filter (matches E sf k) [0..<nsmp E])) / real (nsmp E) \<and>
         real (length (filter (matches E sf k) [0..<nsmp E])) / real (nsmp E) \<le> 1 \<and>
         (real (length (filter (matches E sf k) [0..<nsmp E])) / real (nsmp E) = 1
            \<longleftrightarrow> (\<forall>j<nsmp E. matches E sf k j)) \<and>
         (real (length (filter (matches E sf k) [0..<nsmp E])) / real (nsmp E) = 0
            \<longleftrightarrow> (\<forall>j<nsmp E. \<not> matches E sf k j)) \<and>
         (\<exists>s sm ires. sim_upto E P R k = Inr s \<and> forward E P R (Suc k) s = Inr sm \<and>
            survivors E (Suc k) sm = Inr ires \<and> psmp sf ! k = mean_l ires \<and>
            raft sf ! k = raft sm ! k \<and> caft sf ! k = caft sm ! k)"
proof -
  obtain s sm ires where s: "sim_upto E P R k = Inr s"
    and f: "forward E P R (Suc k) s = Inr sm"
    and sv: "survivors E (Suc k) sm = Inr ires" and li: "length ires = nsmp E"
    and m: "\<forall>j<nsmp E. ires ! j = matches E sf k j"
    and p: "psmp sf ! k = mean_l ires"
    and ra: "raft sf ! k = raft sm ! k" and ca: "caft sf ! k = caft sm ! k"
    by (rule conditioned_trial [OF assms(1-3)]) blast
  have ne: "ires \<noteq> []" using li assms(4) by auto
  have "filter (\<lambda>j. ires ! j) [0..<length ires] = filter (matches E sf k) [0..<nsmp E]"
    unfolding li using m by (intro filter_cong) auto
  then have cnt: "length (filter (\<lambda>b. b) ires) = length (filter (matches E sf k) [0..<nsmp E])"
    by (simp add: count_true_nth)
  have w: "psmp sf ! k =
      Fin (real (length (filter (matches E sf k) [0..<nsmp E])) / real (nsmp E))"
    unfolding p mean_l_value [OF ne] cnt li ..
  have all: "(\<forall>j<length ires. ires ! j) \<longleftrightarrow> (\<forall>j<nsmp E. matches E sf k j)"
    and none: "(\<forall>j<length ires. \<not> ires ! j) \<longleftrightarrow> (\<forall>j<nsmp E. \<not> matches E sf k j)"
    unfolding li using m by auto
  note b = mean_l_bounds [OF ne, unfolded cnt li]
  note o = mean_l_one [OF ne, unfolded cnt li all [unfolded li]]
  note z = mean_l_zero [OF ne, unfolded cnt li none [unfolded li]]
  from s f sv p ra ca have ex: "\<exists>s sm ires. sim_upto E P R k = Inr s \<and>
      forward E P R (Suc k) s = Inr sm \<and>
      survivors E (Suc k) sm = Inr ires \<and> psmp sf ! k = mean_l ires \<and>
      raft sf ! k = raft sm ! k \<and> caft sf ! k = caft sm ! k" by blast
  from w b o z ex show ?thesis by blast
qed

theorem survival_weight_fraction_witness:
  "sim_r EA PA RA = Inr SA2 \<and> resamp EA \<and> (1::nat) < nseq EA \<and> 0 < nsmp EA \<and>
   psmp SA2 ! 1 = Fin (real (length (filter (matches EA SA2 1) [0..<nsmp EA])) / real (nsmp EA)) \<and>
   real (length (filter (matches EA SA2 1) [0..<nsmp EA])) / real (nsmp EA) = 1 / 2 \<and>
   matches EA SA2 1 0 \<and> \<not> matches EA SA2 1 1"
proof -
  have a: "resamp EA" and b: "(1::nat) < nseq EA" and c: "0 < nsmp EA"
    by (simp_all add: EA_def)
  have d: "matches EA SA2 1 0" and e: "\<not> matches EA SA2 1 1"
    by (simp_all add: matches_def EA_def SA2_def eq_lbl_def)
  have f: "real (length (filter (matches EA SA2 1) [0..<nsmp EA])) / real (nsmp EA) = 1 / 2"
    using d e by (simp add: EA_def upt_conv_Cons numeral_2_eq_2)
  from survival_weight_fraction [OF run_A a b c] run_A a b c d e f show ?thesis by blast
qed

text \<open>
  C3. A conditioned run on well-formed inputs returns a state and raises nothing, also
  when on some trial no particle reproduces the observed behaviour. On every such trial
  the belief of every particle is set to 0 and the weight of the trial is 0.
\<close>

theorem degenerate_resample_reset:
  assumes "wf_env E" and "resamp E" and "0 < nsmp E"
  shows "\<exists>sf. sim_r E P R = Inr sf \<and>
           (\<forall>k<nseq E. (\<forall>j<nsmp E. \<not> matches E sf k j) \<longrightarrow>
              xt sf ! k = replicate (nsmp E) (Fin 0) \<and> psmp sf ! k = Fin 0)"
proof -
  from sim_upto_ok [OF assms(1), of "nseq E" P R] obtain sf where
    run: "sim_r E P R = Inr sf" by (auto simp: sim_r_def)
  have "xt sf ! k = replicate (nsmp E) (Fin 0) \<and> psmp sf ! k = Fin 0"
    if k: "k < nseq E" and no: "\<forall>j<nsmp E. \<not> matches E sf k j" for k
  proof -
    obtain ires where li: "length ires = nsmp E"
      and m: "\<forall>j<nsmp E. ires ! j = matches E sf k j"
      and p: "psmp sf ! k = mean_l ires"
      and z: "\<not> any_l ires \<Longrightarrow> xt sf ! k = replicate (nsmp E) (Fin 0)"
      by (rule conditioned_trial [OF run assms(2) k]) blast
    have ne: "ires \<noteq> []" using li assms(3) by auto
    have none: "\<forall>j<length ires. \<not> ires ! j" using li m no by simp
    then have "\<not> any_l ires" by (simp add: any_l_nth)
    moreover have "psmp sf ! k = Fin 0"
      unfolding p mean_l_value [OF ne] using mean_l_zero [OF ne] none by simp
    ultimately show ?thesis using z by simp
  qed
  with run show ?thesis by blast
qed

theorem degenerate_resample_reset_witness:
  "wf_env EA \<and> resamp EA \<and> 0 < nsmp EA \<and> sim_r EA PA RA = Inr SA2 \<and> (0::nat) < nseq EA \<and>
   \<not> matches EA SA2 0 0 \<and> \<not> matches EA SA2 0 1 \<and>
   xt SA2 ! 0 = replicate (nsmp EA) (Fin 0) \<and> psmp SA2 ! 0 = Fin 0"
proof -
  have a: "wf_env EA" and b: "resamp EA" and c: "0 < nsmp EA" and k: "(0::nat) < nseq EA"
    by (simp_all add: EA_def wf_env_def)
  have d: "\<not> matches EA SA2 0 0" and e: "\<not> matches EA SA2 0 1"
    by (simp_all add: matches_def EA_def SA2_def eq_lbl_def)
  have n: "\<forall>j<nsmp EA. \<not> matches EA SA2 0 j"
    using d e by (auto simp: EA_def less_Suc_eq numeral_2_eq_2)
  from degenerate_resample_reset [OF a b c, of PA RA] run_A k n
  have "xt SA2 ! 0 = replicate (nsmp EA) (Fin 0) \<and> psmp SA2 ! 0 = Fin 0" by auto
  with a b c k d e run_A show ?thesis by blast
qed

section \<open>Where the resampled beliefs come from\<close>

text \<open>
  When the number of surviving particles is not one, every belief after resampling is the
  belief that some surviving particle had before resampling.
\<close>

lemma bootstrap_closure_several:
  assumes run: "sim_r E P R = Inr sf" and re: "resamp E" and k: "k < nseq E"
    and s: "sim_upto E P R k = Inr s" and f: "forward E P R (Suc k) s = Inr sm"
    and two: "length (filter (matches E sf k) [0..<nsmp E]) \<noteq> 1"
    and some: "\<exists>j<nsmp E. matches E sf k j"
    and i: "i < nsmp E"
  shows "\<exists>j<nsmp E. matches E sf k j \<and> xt sf ! k ! i = xt sm ! k ! j"
proof -
  obtain s0 sm0 ires where s0: "sim_upto E P R k = Inr s0"
    and f0: "forward E P R (Suc k) s0 = Inr sm0"
    and li: "length ires = nsmp E"
    and m: "\<forall>j<nsmp E. ires ! j = matches E sf k j"
    and a: "any_l ires \<Longrightarrow> \<exists>idx. randsample (find_l ires) (nsmp E) (pick R (Suc k)) = Inr idx \<and>
           xt sf ! k = map (\<lambda>i. xt sm0 ! k ! (i - 1)) idx"
    by (rule conditioned_trial [OF run re k]) blast
  have sm0: "sm0 = sm" using s s0 f f0 by simp
  have any: "any_l ires" using some m li by (auto simp: any_l_nth)
  from a [OF any] obtain idx where
    r: "randsample (find_l ires) (nsmp E) (pick R (Suc k)) = Inr idx"
    and x: "xt sf ! k = map (\<lambda>i. xt sm ! k ! (i - 1)) idx" unfolding sm0 by blast
  have "filter (\<lambda>j. ires ! j) [0..<length ires] = filter (matches E sf k) [0..<nsmp E]"
    unfolding li using m by (intro filter_cong) auto
  then have "length (find_l ires) \<noteq> 1" using two by (simp add: find_l_def)
  from randsample_closed [OF r this] have sub: "set idx \<subseteq> set (find_l ires)" .
  have il: "i < length idx" using randsample_length [OF r] i by simp
  then have "idx ! i \<in> set (find_l ires)" using sub by auto
  then obtain j where j: "idx ! i = Suc j" "j < length ires" "ires ! j"
    by (auto simp: set_find_l)
  have "xt sf ! k ! i = xt sm ! k ! j" unfolding x using il j(1) by simp
  moreover have "matches E sf k j" "j < nsmp E" using j m li by auto
  ultimately show ?thesis by blast
qed

lemma run_4_forward: "forward E4 P4 R4 1 (init E4) = Inr SM4"
  by (simp add: forward_def E4_def P4_def R4_def SM4_def run_defs numeral_2_eq_2)

lemma run_4: "sim_r E4 P4 R4 = Inr S4"
  by (simp add: sim_r_def E4_def P4_def R4_def S4_def SM4_def run_defs numeral_2_eq_2)

text \<open>
  C4. The claim fails on the code when exactly one particle survives and it is not the
  first one. \<open>find(ires)\<close> is then a single index \<open>j\<close>, and \<open>randsample\<close> reads a
  one-element first argument as the number \<open>n = j\<close> of \<open>randsample(n,k,true)\<close>: the
  indices are drawn from \<open>1..j\<close>. In the run below the particles have the beliefs 1 and
  -1 before resampling and only the second one answers like the subject; after
  resampling both particles carry the belief 1 of the first particle, which did not
  survive.
\<close>

theorem single_survivor_resample_escapes:
  "sim_upto E4 P4 R4 0 = Inr (init E4) \<and>
   forward E4 P4 R4 1 (init E4) = Inr SM4 \<and>
   xt SM4 ! 0 = [Fin 1, Fin (- 1)] \<and>
   raft SM4 ! 0 = [Some 1, Some 2] \<and> cfg_raft E4 ! 0 = Some 2 \<and>
   survivors E4 1 SM4 = Inr [False, True] \<and>
   find_l [False, True] = [2] \<and>
   randsample [2] (nsmp E4) (pick R4 1) = Inr [1, 1] \<and>
   sim_r E4 P4 R4 = Inr S4 \<and>
   xt S4 ! 0 = [Fin 1, Fin 1] \<and>
   xt S4 ! 0 ! 0 \<noteq> xt SM4 ! 0 ! 1"
proof -
  have "survivors E4 1 SM4 = Inr [False, True]"
    by (simp add: survivors_def E4_def SM4_def run_defs)
  moreover have "find_l [False, True] = [2]"
    by (simp add: find_l_def upt_conv_Cons)
  moreover have "randsample [2] (nsmp E4) (pick R4 1) = Inr [1, 1]"
    by (simp add: randsample_def E4_def R4_def upt_conv_Cons numeral_2_eq_2)
  ultimately show ?thesis
    using run_4_forward run_4 by (simp add: SM4_def S4_def E4_def)
qed

section \<open>The forward part of a trial\<close>









lemma forward_belief:
  assumes s: "sim_upto E P R k = Inr s" and f: "forward E P R (Suc k) s = Inr sm"
  shows "xt sm ! k = normrnd_row
            (map (\<lambda>v. fplus v (seqllr E ! k))
               (if 1 < seqind E ! k then map (\<lambda>v. upfun v (h P)) (xt s ! (k - 1))
                else replicate (nsmp E) (Fin 0)))
            (sqrt (real (seqlen E ! k)) * sinf P) (zinf R (Suc k))"
    and "k < nseq E"
    and "1 < seqind E ! k \<Longrightarrow> 0 < k \<and> length (xt s ! (k - 1)) = nsmp E"
proof -
  have sh: "shape E s" using sim_upto_shape [OF s] by simp
  note eqs = forward_Inr [OF f]
  note l = shape_len [OF sh]
  show k: "k < nseq E" using eqs(8) l by simp
  have "rows_at s k = rows_at (init E) k" using sim_upto_untouched [OF s] by simp
  then have z: "xt s ! k = replicate (nsmp E) (Fin 0)"
    using init_rows [OF k] by (simp add: rows_at_def)
  show "xt sm ! k = normrnd_row
            (map (\<lambda>v. fplus v (seqllr E ! k))
               (if 1 < seqind E ! k then map (\<lambda>v. upfun v (h P)) (xt s ! (k - 1))
                else replicate (nsmp E) (Fin 0)))
            (sqrt (real (seqlen E ! k)) * sinf P) (zinf R (Suc k))"
    unfolding eqs(1) using k l z by simp
  show "0 < k \<and> length (xt s ! (k - 1)) = nsmp E" if "1 < seqind E ! k"
  proof -
    have "0 < k" using eqs(7) [OF that] .
    moreover have "k - 1 < nseq E" using k by simp
    ultimately show ?thesis using shape_row(1) [OF sh] by simp
  qed
qed





section \<open>The hazard correction\<close>

text \<open>
  C1, as stated, fails: at the finite belief 710 and the hazard rate 1/4, \<open>exp(710)\<close>
  overflows, the second logarithm is \<open>+Inf\<close> and \<open>upfun\<close> returns \<open>-Inf\<close>, not the
  value of the expression. The hazard step of the loop hands this on.
\<close>

theorem hazard_overflow_counterexample:
  "(0::real) < 1 / 4 \<and> (1 / 4 :: real) < 1 \<and>
   upfun (Fin 710) (1 / 4) = NInf \<and>
   upfun (Fin 710) (1 / 4) \<noteq>
     Fin (710 + ln ((1 - 1 / 4) / (1 / 4) + exp (- 710)) - ln ((1 - 1 / 4) / (1 / 4) + exp 710)) \<and>
   hazard_step P1 2 2 (SA1\<lparr>xt := [[Fin 710, Fin 0], [Fin 0, Fin 0]]\<rparr>) =
     Inr (SA1\<lparr>xt := [[Fin 710, Fin 0], [NInf, upfun (Fin 0) (1 / 4)]]\<rparr>)"
proof -
  have "hazard_step P1 2 2 (SA1\<lparr>xt := [[Fin 710, Fin 0], [Fin 0, Fin 0]]\<rparr>) =
     Inr (SA1\<lparr>xt := [[Fin 710, Fin 0], [upfun (Fin 710) (1 / 4), upfun (Fin 0) (1 / 4)]]\<rparr>)"
    by (simp add: hazard_step_def row_def setrow_def P1_def)
  then show ?thesis unfolding upfun_710 by simp
qed

text \<open>
  C1, amended. For a hazard rate \<open>0 < h < 1\<close> and a finite belief \<open>x\<close> for which
  \<open>(1-h)/h + exp \<bar>x\<bar>\<close> does not exceed the largest double, \<open>upfun\<close> returns
  \<open>x + ln((1-h)/h + exp(-x)) - ln((1-h)/h + exp(x))\<close>, both logarithms having a positive
  argument. The hazard step of the loop applies it to every particle of the previous row
  when the trial is not the first of its block, and leaves the state alone when it is.
\<close>

theorem hazard_correction_formula:
  assumes "0 < h P" and "h P < 1" and "hazard_step P (Suc k) si s = Inr s'"
    and "k < length (xt s)"
  shows "(\<forall>x. (1 - h P) / h P + exp \<bar>x\<bar> \<le> dbl_max \<longrightarrow>
              upfun (Fin x) (h P) =
                Fin (x + ln ((1 - h P) / h P + exp (- x)) - ln ((1 - h P) / h P + exp x)) \<and>
              0 < (1 - h P) / h P + exp (- x) \<and> 0 < (1 - h P) / h P + exp x) \<and>
         (1 < si \<longrightarrow> 0 < k \<and>
            (\<forall>j x. j < length (xt s ! (k - 1)) \<and> xt s ! (k - 1) ! j = Fin x \<and>
                   (1 - h P) / h P + exp \<bar>x\<bar> \<le> dbl_max \<longrightarrow>
               xt s' ! k ! j =
                 Fin (x + ln ((1 - h P) / h P + exp (- x)) - ln ((1 - h P) / h P + exp x)))) \<and>
         (\<not> 1 < si \<longrightarrow> s' = s)"
proof -
  have hz: "h P \<le> 1" using assms(2) by simp
  have u: "upfun (Fin x) (h P) =
      Fin (x + ln ((1 - h P) / h P + exp (- x)) - ln ((1 - h P) / h P + exp x))"
    if "(1 - h P) / h P + exp \<bar>x\<bar> \<le> dbl_max" for x
    using upfun_in_range [OF assms(1,2) that] .
  have p: "0 < (1 - h P) / h P + exp y" for y
    using upfun_args_pos [OF assms(1) hz] .
  note e = hazard_step_Inr [OF assms(3)]
  have k: "0 < k" if "1 < si"
    using assms(3) that by (auto simp: hazard_step_def bind_e_eq_Inr row_eq_Inr)
  have a: "xt s' ! k ! j =
      Fin (x + ln ((1 - h P) / h P + exp (- x)) - ln ((1 - h P) / h P + exp x))"
    if "1 < si" and "j < length (xt s ! (k - 1))" and "xt s ! (k - 1) ! j = Fin x"
      and "(1 - h P) / h P + exp \<bar>x\<bar> \<le> dbl_max" for j x
    unfolding e using that(1-3) assms(4) u [OF that(4)] by simp
  have b: "s' = s" if "\<not> 1 < si" unfolding e using that by simp
  from u p k a b show ?thesis by blast
qed

theorem hazard_correction_formula_witness:
  "0 < h P1 \<and> h P1 < 1 \<and> (1 - h P1) / h P1 + exp \<bar>1\<bar> \<le> dbl_max \<and>
   hazard_step P1 2 2 (SA1\<lparr>xt := [[Fin 1, Fin 0], [Fin 0, Fin 0]]\<rparr>) =
     Inr (SA1\<lparr>xt := [[Fin 1, Fin 0], [upfun (Fin 1) (h P1), upfun (Fin 0) (h P1)]]\<rparr>) \<and>
   xt (SA1\<lparr>xt := [[Fin 1, Fin 0], [upfun (Fin 1) (h P1), upfun (Fin 0) (h P1)]]\<rparr>) ! 1 ! 0 =
     Fin (1 + ln (3 + exp (- 1)) - ln (3 + exp 1)) \<and>
   hazard_step P1 1 1 SA1 = Inr SA1"
proof -
  let ?s = "SA1\<lparr>xt := [[Fin 1, Fin 0], [Fin 0, Fin 0]]\<rparr>"
  let ?s' = "SA1\<lparr>xt := [[Fin 1, Fin 0], [upfun (Fin 1) (h P1), upfun (Fin 0) (h P1)]]\<rparr>"
  have a: "0 < h P1" "h P1 < 1" by (simp_all add: P1_def)
  have r: "(1 - h P1) / h P1 + exp \<bar>1\<bar> \<le> dbl_max"
    using exp_le dbl_max_ge by (simp add: P1_def)
  have b: "hazard_step P1 (Suc (Suc 0)) 2 ?s = Inr ?s'"
    by (simp add: hazard_step_def row_def setrow_def)
  have c: "Suc 0 < length (xt ?s)" by simp
  have d: "hazard_step P1 1 1 SA1 = Inr SA1" by (simp add: hazard_step_def)
  have lt: "1 < (2::nat)" by simp
  note t = hazard_correction_formula [OF a b c, THEN conjunct2, THEN conjunct1, THEN mp,
      OF lt, THEN conjunct2, rule_format, of 0 1]
  have "xt ?s' ! 1 ! 0 =
     Fin (1 + ln ((1 - h P1) / h P1 + exp (- 1)) - ln ((1 - h P1) / h P1 + exp 1))"
    using t r by simp
  moreover have "(1 - h P1) / h P1 = 3" by (simp add: P1_def)
  ultimately have "xt ?s' ! 1 ! 0 = Fin (1 + ln (3 + exp (- 1)) - ln (3 + exp 1))"
    by simp
  with a r b d show ?thesis by (simp add: numeral_2_eq_2)
qed

section \<open>The simulator without noise\<close>

lemma run_9: "sim_r E9 P9 R9 = Inr S9"
  by (simp add: sim_r_def E9_def P9_def R9_def S9_def run_defs numeral_2_eq_2)

lemma run_9_A: "sim_r E9 P9 RA = Inr S9"
  by (simp add: sim_r_def E9_def P9_def RA_def S9_def run_defs numeral_2_eq_2)

text \<open>
  C9, as stated, fails: with no noise and \<open>h = 0\<close> the second trial of a block gets the
  belief \<open>upfun(x,0)\<close>, which is NaN, and answers 1, although the evidence accumulated
  over the two trials is -2, the evidence of the second trial alone is -1, and the
  sign-based classifier answers 2 on either.
\<close>

theorem zero_hazard_counterexample:
  "sinf P9 = 0 \<and> ssel P9 = 0 \<and> scnf P9 = 0 \<and> h P9 = 0 \<and>
   sim_r E9 P9 R9 = Inr S9 \<and>
   xt S9 ! 1 ! 0 = upfun (xt S9 ! 0 ! 0) 0 \<and>
   raft S9 ! 1 ! 0 = Some 1 \<and>
   spec_accumulated_llr E9 1 = - 2 \<and>
   spec_sign_classifier (spec_accumulated_llr E9 1) = 2 \<and>
   spec_sign_classifier (seqllr E9 ! 1) = 2 \<and>
   raft S9 ! 1 ! 0 \<noteq> Some (spec_sign_classifier (spec_accumulated_llr E9 1))"
proof -
  have "spec_accumulated_llr E9 (Suc 0) = - 2" "seqllr E9 ! Suc 0 = - 1"
    by (simp_all add: E9_def)
  then show ?thesis
    using run_9 by (simp add: P9_def S9_def spec_sign_classifier_def upfun_zero_hazard)
qed

lemma normrnd_zero: "normrnd m 0 z = m"
  by (cases m) (simp_all add: normrnd_def fplus_def)

lemma normrnd_row_zero: "normrnd_row mus 0 z = mus"
  by (simp add: normrnd_row_def normrnd_zero map_nth)

lemma forward_indep:
  assumes "sinf P = 0" and "ssel P = 0" and "scnf P = 0"
  shows "forward E P R' iseq s = forward E P R iseq s"
proof -
  have a: "accumulate E P R' iseq t = accumulate E P R iseq t" for t
    by (simp add: accumulate_def assms(1) normrnd_row_zero)
  have b: "respond_step P R' iseq t = respond_step P R iseq t" for t
    by (simp add: respond_step_def decision_var_def assms(2) normrnd_row_zero)
  have c: "confidence_step P R' iseq t = confidence_step P R iseq t" for t
    by (simp add: confidence_step_def confidence_var_def assms(3) normrnd_row_zero)
  show ?thesis by (simp add: forward_def a b c cong: if_cong)
qed

lemma const_row_replicate [simp]: "const_row (replicate n c)"
  unfolding const_row_def by (rule exI [of _ c]) simp

lemma const_row_map: "const_row x \<Longrightarrow> const_row (map f x)"
proof -
  assume "const_row x"
  then obtain c where c: "x = replicate (length x) c" by (auto simp: const_row_def)
  have "map f x = map f (replicate (length x) c)" using c by simp
  then have "map f x = replicate (length x) (f c)" by simp
  then show ?thesis using const_row_replicate [of "length x" "f c"] by simp
qed

lemma gather_const:
  assumes x: "x = replicate (length x) c"
    and r: "\<forall>i\<in>set idx. 0 < i \<and> i \<le> length x"
  shows "gather x idx = Inr (replicate (length idx) c)"
proof -
  have "map (\<lambda>i. x ! (i - 1)) idx = map (\<lambda>i. c) idx"
  proof (rule map_cong [OF refl])
    fix i assume "i \<in> set idx"
    with r have "i - 1 < length x" by auto
    then have "replicate (length x) c ! (i - 1) = c" by simp
    then show "x ! (i - 1) = c" using x by simp
  qed
  then have "map (\<lambda>i. x ! (i - 1)) idx = replicate (length idx) c"
    by (simp add: map_replicate_const)
  with gather_ok [OF r] show ?thesis by simp
qed

lemma resample_pick_const:
  assumes "any_l ires" and "length ires = length x" and "x = replicate (length x) c"
  shows "bind_e (randsample (find_l ires) n pk) (\<lambda>idx. bind_e (gather x idx) F) =
         F (replicate n c)"
proof -
  from randsample_find_ok [OF assms(1)] obtain idx where
    i: "randsample (find_l ires) n pk = Inr idx" by blast
  have "\<forall>i\<in>set idx. 0 < i \<and> i \<le> length x"
    using randsample_find_range [OF i] assms(2) by simp
  from gather_const [OF assms(3) this] randsample_length [OF i] i
  show ?thesis by simp
qed

lemma resample_indep:
  assumes "const_row (xt s ! k)" and "length ires = length (xt s ! k)"
  shows "resample E R' (Suc k) ires s = resample E R (Suc k) ires s"
proof -
  from assms(1) obtain c where c: "xt s ! k = replicate (length (xt s ! k)) c"
    by (auto simp: const_row_def)
  show ?thesis
  proof (cases "any_l ires \<and> k < length (xt s)")
    case True
    then show ?thesis
      unfolding resample_def Let_def
      by (simp add: row_Suc resample_pick_const [OF _ assms(2) c])
  next
    case False
    then show ?thesis
      unfolding resample_def Let_def by (auto simp: row_def)
  qed
qed

lemma condition_indep:
  assumes "const_row (xt s ! k)" and "shape E s" and "k < nseq E"
  shows "condition E R' (Suc k) s = condition E R (Suc k) s"
proof (cases "survivors E (Suc k) s")
  case (Inl e)
  then show ?thesis by (simp add: condition_def)
next
  case (Inr ires)
  have "length ires = length (xt s ! k)"
    using survivors_Inr(1) [OF Inr] shape_row(1,3) [OF assms(2,3)] by simp
  from resample_indep [OF assms(1) this] Inr show ?thesis
    by (simp add: condition_def)
qed

lemma condition_const:
  assumes c: "condition E R (Suc k) s = Inr s'" and cr: "const_row (xt s ! k)"
    and sh: "shape E s" and k: "k < nseq E"
  shows "const_row (xt s' ! k)"
proof (cases "resamp E")
  case False
  with condition_Inr(5) [OF c] cr show ?thesis by simp
next
  case True
  from condition_Inr(6) [OF c True] obtain ires where
    sv: "survivors E (Suc k) s = Inr ires" and
    r: "resample E R (Suc k) ires s = Inr s'" by blast
  have li: "length ires = length (xt s ! k)"
    using survivors_Inr(1) [OF sv] shape_row(1,3) [OF sh k] by simp
  have kl: "k < length (xt s)" using shape_len(1) [OF sh] k by simp
  from cr obtain c0 where c0: "xt s ! k = replicate (length (xt s ! k)) c0"
    by (auto simp: const_row_def)
  show ?thesis
  proof (cases "any_l ires")
    case False
    from resample_Inr(7) [OF r False] kl show ?thesis by simp
  next
    case True
    from resample_Inr(6) [OF r True] obtain idx x' where
      i: "randsample (find_l ires) (nsmp E) (pick R (Suc k)) = Inr idx" and
      g: "gather (xt s ! k) idx = Inr x'" and x: "xt s' = (xt s)[k := x']" by blast
    have "\<forall>i\<in>set idx. 0 < i \<and> i \<le> length (xt s ! k)"
      using randsample_find_range [OF i] li by simp
    from gather_const [OF c0 this] g have "x' = replicate (length idx) c0" by simp
    then show ?thesis unfolding x using kl by simp
  qed
qed

lemma forward_const:
  assumes z: "sinf P = 0"
    and s: "sim_upto E P R k = Inr s" and f: "forward E P R (Suc k) s = Inr sm"
    and inv: "\<forall>i<nseq E. const_row (xt s ! i)"
  shows "const_row (xt sm ! k)"
proof -
  note fb = forward_belief [OF s f]
  have "const_row (if 1 < seqind E ! k then map (\<lambda>v. upfun v (h P)) (xt s ! (k - 1))
                else replicate (nsmp E) (Fin 0))"
    using inv fb(2) by (auto intro!: const_row_map)
  then show ?thesis
    unfolding fb(1) z by (simp add: normrnd_row_zero const_row_map)
qed

lemma sim_upto_indep:
  assumes "sinf P = 0" and "ssel P = 0" and "scnf P = 0"
  shows "sim_upto E P R' k = sim_upto E P R k \<and>
         (\<forall>s. sim_upto E P R k = Inr s \<longrightarrow> (\<forall>i<nseq E. const_row (xt s ! i)))"
proof (induction k)
  case 0
  show ?case by (simp add: init_def)
next
  case (Suc k)
  show ?case
  proof (cases "sim_upto E P R k")
    case (Inl e)
    with Suc.IH show ?thesis by simp
  next
    case (Inr s)
    with Suc.IH have s': "sim_upto E P R' k = Inr s"
      and inv: "\<forall>i<nseq E. const_row (xt s ! i)" by simp_all
    have sh: "shape E s" using sim_upto_shape [OF Inr] by simp
    note fi = forward_indep [OF assms, of E R' "Suc k" s R]
    show ?thesis
    proof (cases "forward E P R (Suc k) s")
      case (Inl e)
      then show ?thesis using Inr s' fi by (simp add: trial_forward)
    next
      case f: (Inr sm)
      have shm: "shape E sm" using forward_shape [OF f sh] .
      have k: "k < nseq E" using forward_belief(2) [OF Inr f] .
      have cm: "const_row (xt sm ! k)" using forward_const [OF assms(1) Inr f inv] .
      have eq: "sim_upto E P R' (Suc k) = sim_upto E P R (Suc k)"
        using Inr s' fi f condition_indep [OF cm shm k, of R' R] by (simp add: trial_forward)
      have "\<forall>i<nseq E. const_row (xt t ! i)" if t: "sim_upto E P R (Suc k) = Inr t" for t
      proof (intro allI impI)
        fix i assume i: "i < nseq E"
        from t Inr f have c: "condition E R (Suc k) sm = Inr t"
          by (simp add: trial_forward)
        show "const_row (xt t ! i)"
        proof (cases "i = k")
          case True
          then show ?thesis using condition_const [OF c cm shm k] by simp
        next
          case False
          from t Inr have tr: "trial E P R (Suc k) s = Inr t" by simp
          from trial_frame [OF tr False] have "xt t ! i = xt s ! i"
            by (simp add: rows_at_def)
          then show ?thesis using inv i by simp
        qed
      qed
      with eq show ?thesis by blast
    qed
  qed
qed

lemma spec_accumulated_llr_start:
  "\<not> 1 < seqind E ! k \<Longrightarrow> spec_accumulated_llr E k = seqllr E ! k"
  by (cases k) simp_all

text \<open>
  C9, amended. With the three noise parameters at zero the result of the simulator does
  not depend on the random draws. With \<open>h = 0\<close> in addition, the response of every
  particle on the first trial of a block is that of the sign-based classifier on the
  evidence accumulated in the block, which is the evidence of that trial; on every later
  trial of a block the belief is NaN and the response is 1.
\<close>

theorem zero_noise_simulator:
  assumes "sinf P = 0" and "ssel P = 0" and "scnf P = 0"
  shows "sim_r E P R' = sim_r E P R \<and>
         (\<forall>sf k j. sim_r E P R = Inr sf \<and> k < nseq E \<and> j < nsmp E \<and> h P = 0 \<longrightarrow>
            (\<not> 1 < seqind E ! k \<longrightarrow>
               raft sf ! k ! j = Some (spec_sign_classifier (spec_accumulated_llr E k))) \<and>
            (1 < seqind E ! k \<longrightarrow> raft sf ! k ! j = Some 1))"
proof -
  have det: "sim_r E P R' = sim_r E P R"
    using sim_upto_indep [OF assms, of E R' "nseq E" R] by (simp add: sim_r_def)
  have resp: "(\<not> 1 < seqind E ! k \<longrightarrow>
               raft sf ! k ! j = Some (spec_sign_classifier (spec_accumulated_llr E k))) \<and>
            (1 < seqind E ! k \<longrightarrow> raft sf ! k ! j = Some 1)"
    if run: "sim_r E P R = Inr sf" and k: "k < nseq E" and j: "j < nsmp E" and h0: "h P = 0"
    for sf k j
  proof -
    from run k obtain s sm s' where s: "sim_upto E P R k = Inr s"
      and f: "forward E P R (Suc k) s = Inr sm" and c: "condition E R (Suc k) sm = Inr s'"
      and rs: "rows_at sf k = rows_at s' k" by (rule sim_r_trial)
    have sh: "shape E s" using sim_upto_shape [OF s] by simp
    note fr = forward_rows [OF f sh]
    note fb = forward_belief [OF s f]
    have r: "raft sf ! k = raft sm ! k"
      using rs condition_Inr(2) [OF c] by (simp add: rows_at_def)
    have jl: "j < length (xt sm ! k)" using fr(4) j by simp
    have rj: "raft sf ! k ! j = respond (xt sm ! k ! j)"
      unfolding r fr(1) using jl
      by (simp add: decision_var_def assms(2) normrnd_row_zero)
    have x0: "xt sm ! k ! j = Fin (seqllr E ! k)" if "\<not> 1 < seqind E ! k"
      unfolding fb(1) using that j by (simp add: assms(1) normrnd_row_zero fplus_def)
    have x1: "xt sm ! k ! j = NaN" if "1 < seqind E ! k"
      unfolding fb(1) using that j fb(3) [OF that]
      by (simp add: assms(1) normrnd_row_zero h0 upfun_zero_hazard fplus_def)
    have a: "raft sf ! k ! j = Some (spec_sign_classifier (spec_accumulated_llr E k))"
      if "\<not> 1 < seqind E ! k"
      unfolding rj x0 [OF that] spec_accumulated_llr_start [OF that]
      by (simp add: respond_def flt_def spec_sign_classifier_def)
    have b: "raft sf ! k ! j = Some 1" if "1 < seqind E ! k"
      unfolding rj x1 [OF that] by (simp add: respond_def flt_def)
    from a b show ?thesis by blast
  qed
  from det resp show ?thesis by blast
qed

theorem zero_noise_simulator_witness:
  "sinf P9 = 0 \<and> ssel P9 = 0 \<and> scnf P9 = 0 \<and> h P9 = 0 \<and>
   sim_r E9 P9 RA = sim_r E9 P9 R9 \<and> sim_r E9 P9 R9 = Inr S9 \<and>
   \<not> 1 < seqind E9 ! 0 \<and> spec_accumulated_llr E9 0 = - 1 \<and>
   raft S9 ! 0 ! 0 = Some (spec_sign_classifier (spec_accumulated_llr E9 0)) \<and>
   raft S9 ! 0 ! 0 = Some 2 \<and>
   1 < seqind E9 ! 1 \<and> raft S9 ! 1 ! 0 = Some 1"
proof -
  have a: "sinf P9 = 0" "ssel P9 = 0" "scnf P9 = 0" and h0: "h P9 = 0"
    by (simp_all add: P9_def)
  have b: "\<not> 1 < seqind E9 ! 0" "1 < seqind E9 ! Suc 0" "0 < nseq E9" "Suc 0 < nseq E9"
    "0 < nsmp E9"
    by (simp_all add: E9_def)
  note t = zero_noise_simulator [OF a, of E9 RA R9]
  from t have det: "sim_r E9 P9 RA = sim_r E9 P9 R9" by blast
  from t run_9 b h0
  have r0: "raft S9 ! 0 ! 0 = Some (spec_sign_classifier (spec_accumulated_llr E9 0))"
    by blast
  from t run_9 b h0 have r1: "raft S9 ! Suc 0 ! 0 = Some 1" by blast
  have e: "spec_accumulated_llr E9 0 = - 1" "raft S9 ! 0 ! 0 = Some 2"
    by (simp_all add: E9_def S9_def)
  from a h0 det run_9 b r0 r1 e show ?thesis by simp
qed

end
